theory Spec2Isabelle
  imports Main "HOL-Library.Word" "HOL-Library.Sublist"
begin

section \<open>The sockets skeleton daemon (tssockskel.c)\<close>

text \<open>
  The module runs on the non secure side of a SAMA5D2 and executes socket operations on
  behalf of the secure side. A request descriptor (\<open>skel_req_t\<close>) travels through
  \<open>tsInvokeServiceNoYield\<close>; its \<open>req\<close> field names the phase of the protocol.

  All C integers of the module are 32 bits wide (pointers are cast to \<open>uint32_t\<close>), so
  \<open>int\<close>, \<open>size_t\<close>, \<open>msg_t\<close>, \<open>uint32_t\<close> and pointers are all \<open>32 word\<close>; a cast between
  them keeps the bits. \<open>NULL\<close> is \<open>0\<close>.
\<close>

type_synonym uint32 = "32 word"
type_synonym msg_t = "32 word"

subsection \<open>Declarations of the headers\<close>

text \<open>
  Modelled from the spec: the phase/control field of the descriptor, declared in
  tssockskel.h. The spec lists the four phases
  \<open>READY\<close>, \<open>GET_OP\<close>, \<open>COPY_IN\<close>, \<open>PUT_RESULT\<close>; the names are the ones the C file uses.
\<close>

datatype skel_req_phase = SKEL_REQ_READY | SKEL_REQ_GETOP | SKEL_REQ_CPYPRMS | SKEL_REQ_PUTRES

text \<open>
  Modelled from the spec: the descriptor \<open>skel_req_t\<close> of tssockskel.h: an operation code,
  five parameter slots, five parallel size fields, the phase field and the result field.
  The two arrays are functions on the index; the code only uses the indices 0 to 4.
\<close>

record skel_req_t =
  req :: skel_req_phase
  stub_op_code :: uint32
  stub_op_result :: uint32
  stub_op_p_sz :: "nat \<Rightarrow> uint32"
  stub_op_p :: "nat \<Rightarrow> uint32"

text \<open>The C types of the local variables whose addresses the handlers marshal.\<close>

datatype ctype =
  C_char | C_struct_sockaddr | C_fd_set | C_struct_timeval | C_struct_addrinfo
  | C_ptr_struct_addrinfo

text \<open>
  The macros and sizes that the headers define and the C file only names. They are
  parameters of the model: the operation codes of the dispatch table, the two statuses of
  the invocation channel that the code tests, \<open>ENOMEM\<close>, the discovery handle, and
  \<open>sizeof\<close> of the types other than \<open>char\<close>.
\<close>

record platform =
  STUB_OP_SOCKET :: uint32
  STUB_OP_CONNECT :: uint32
  STUB_OP_CLOSE :: uint32
  STUB_OP_RECV :: uint32
  STUB_OP_SEND :: uint32
  STUB_OP_SELECT :: uint32
  STUB_OP_BIND :: uint32
  STUB_OP_LISTEN :: uint32
  STUB_OP_WRITE :: uint32
  STUB_OP_READ :: uint32
  STUB_OP_GETADDRINFO :: uint32
  STUB_OP_FREEADDRINFO :: uint32
  SMC_SVC_BUSY :: msg_t
  SMC_SVC_NHND :: msg_t
  ENOMEM :: uint32
  TS_HND_DISCOVERY :: uint32
  sizeof_other :: "ctype \<Rightarrow> uint32"

definition sizeof :: "platform \<Rightarrow> ctype \<Rightarrow> uint32" where
  "sizeof K t = (if t = C_char then 1 else sizeof_other K t)"

subsection \<open>Events and the environment\<close>

text \<open>The local variables of the handlers whose addresses are written into a descriptor.\<close>

datatype local_var =
  connect_sockaddr | bind_sockaddr
  | select_readset | select_writeset | select_exceptset | select_timeout
  | getaddrinfo_nodename | getaddrinfo_servname | getaddrinfo_hints | getaddrinfo_res
  | freeaddrinfo_ai

fun local_type :: "local_var \<Rightarrow> ctype" where
  "local_type connect_sockaddr = C_struct_sockaddr"
| "local_type bind_sockaddr = C_struct_sockaddr"
| "local_type select_readset = C_fd_set"
| "local_type select_writeset = C_fd_set"
| "local_type select_exceptset = C_fd_set"
| "local_type select_timeout = C_struct_timeval"
| "local_type getaddrinfo_nodename = C_char"
| "local_type getaddrinfo_servname = C_char"
| "local_type getaddrinfo_hints = C_struct_addrinfo"
| "local_type getaddrinfo_res = C_ptr_struct_addrinfo"
| "local_type freeaddrinfo_ai = C_struct_addrinfo"

text \<open>The primitives of the TCP/IP stack.\<close>

datatype prim =
  P_socket | P_connect | P_close | P_recv | P_send | P_select | P_bind | P_listen
  | P_write | P_read | P_getaddrinfo | P_freeaddrinfo

text \<open>
  The parameters area handed to \<open>tsInvokeServiceNoYield\<close>: the service name at discovery,
  otherwise a descriptor (its address and its content at the moment of the call).
\<close>

datatype params_area = PA_name string | PA_req uint32 skel_req_t

text \<open>
  What one thread does that is visible outside of it, in program order. An invocation is
  two events, the call and the return with its status, so that an invocation in flight is a
  state of the trace. \<open>Halt\<close> is \<open>chSysHalt\<close>, reached from a failed \<open>chDbgAssert\<close>.
\<close>

datatype event =
  MtxLock | MtxUnlock
  | InvokeCall uint32 params_area | InvokeRet msg_t
  | HeapAlloc uint32 uint32 | HeapFree uint32
  | NetCall prim "uint32 list" uint32
  | FifoTake uint32 | FifoReturn uint32 | FifoSend uint32 skel_req_t | FifoReceive uint32
  | EvtRegister | EvtWait | EvtGetAndClearFlags
  | Halt

text \<open>
  The external collaborators. Each answer is a function of the events of the thread so
  far, so an environment can answer every call differently:
  \<^item> \<open>invoke_status\<close>: the value \<open>tsInvokeServiceNoYield\<close> returns;
  \<^item> \<open>invoke_write\<close>: the content of the descriptor when the invocation returns (the
    service owns the parameters area during the call and may write to it);
  \<^item> \<open>chHeapAlloc\<close>: the address of the block, \<open>0\<close> when the heap is exhausted;
  \<^item> \<open>net_call\<close>: the return value of a primitive of the stack;
  \<^item> \<open>addr_of\<close>: the address of a local variable in the frame of the running handler;
  \<^item> \<open>fifo_take\<close>, \<open>fifo_receive\<close>: the address and content of the object that
    \<open>chFifoTakeObjectTimeout\<close> and \<open>chFifoReceiveObjectTimeout\<close> deliver (both wait
    with \<open>TIME_INFINITE\<close>).
\<close>

record env =
  invoke_status :: "event list \<Rightarrow> uint32 \<Rightarrow> params_area \<Rightarrow> msg_t"
  invoke_write :: "event list \<Rightarrow> uint32 \<Rightarrow> uint32 \<Rightarrow> skel_req_t \<Rightarrow> skel_req_t"
  chHeapAlloc :: "event list \<Rightarrow> uint32 \<Rightarrow> uint32"
  net_call :: "event list \<Rightarrow> prim \<Rightarrow> uint32 list \<Rightarrow> uint32"
  addr_of :: "event list \<Rightarrow> local_var \<Rightarrow> uint32"
  fifo_take :: "event list \<Rightarrow> uint32 \<times> skel_req_t"
  fifo_receive :: "event list \<Rightarrow> uint32 \<times> skel_req_t"

text \<open>
  The result of running a piece of code from a trace: it returns a value, or the system
  halts, or (for the two endless loops, which are run with fuel) the fuel is used up and the
  trace is a prefix of the run.
\<close>

datatype 'a outcome = Return 'a "event list" | Halted "event list" | OutOfFuel "event list"

fun trace_of :: "'a outcome \<Rightarrow> event list" where
  "trace_of (Return x tr) = tr"
| "trace_of (Halted tr) = tr"
| "trace_of (OutOfFuel tr) = tr"

definition events_since :: "event list \<Rightarrow> 'a outcome \<Rightarrow> event list" where
  "events_since tr out = drop (length tr) (trace_of out)"

fun returned :: "'a outcome \<Rightarrow> bool" where
  "returned (Return x tr) = True"
| "returned (Halted tr) = False"
| "returned (OutOfFuel tr) = False"

fun halted :: "'a outcome \<Rightarrow> bool" where
  "halted (Return x tr) = False"
| "halted (Halted tr) = True"
| "halted (OutOfFuel tr) = False"

subsection \<open>The two marshaling primitives\<close>

text \<open>
  Modelled from the spec: \<open>chDbgAssert\<close> of ch.h: a
  failed assertion is fatal and terminates the system.

  \<open>svc\<close> is the value of the module variable \<open>tsStubsService\<close>; \<open>skreqp\<close> is the address of
  the descriptor and \<open>rq\<close> its content.
\<close>

definition paramsInFromRemote ::
  "platform \<Rightarrow> env \<Rightarrow> uint32 \<Rightarrow> uint32 \<Rightarrow> skel_req_t \<Rightarrow> event list \<Rightarrow> skel_req_t outcome" where
  "paramsInFromRemote K E svc skreqp rq tr =
    (let rq1 = rq\<lparr>req := SKEL_REQ_CPYPRMS\<rparr>;
         tr1 = tr @ [MtxLock, InvokeCall svc (PA_req skreqp rq1)];
         r = invoke_status E tr1 svc (PA_req skreqp rq1);
         rq2 = invoke_write E tr1 svc skreqp rq1;
         tr2 = tr1 @ [InvokeRet r]
     in if r = SMC_SVC_BUSY K then Halted (tr2 @ [Halt])
        else Return rq2 (tr2 @ [MtxUnlock]))"

definition returnToRemote ::
  "platform \<Rightarrow> env \<Rightarrow> uint32 \<Rightarrow> uint32 \<Rightarrow> skel_req_t \<Rightarrow> uint32 \<Rightarrow> event list
     \<Rightarrow> skel_req_t outcome" where
  "returnToRemote K E svc skreqp rq res tr =
    (let rq1 = rq\<lparr>stub_op_result := res\<rparr>;
         rq2 = rq1\<lparr>req := SKEL_REQ_PUTRES\<rparr>;
         tr1 = tr @ [MtxLock, InvokeCall svc (PA_req skreqp rq2)];
         r = invoke_status E tr1 svc (PA_req skreqp rq2);
         rq3 = invoke_write E tr1 svc skreqp rq2;
         tr2 = tr1 @ [InvokeRet r]
     in if r = SMC_SVC_BUSY K then Halted (tr2 @ [Halt])
        else Return rq3 (tr2 @ [MtxUnlock, FifoReturn skreqp]))"

text \<open>Sequencing: what follows a call runs only when the call returns.\<close>

fun and_then :: "'a outcome \<Rightarrow> ('a \<Rightarrow> event list \<Rightarrow> 'b outcome) \<Rightarrow> 'b outcome" where
  "and_then (Return x tr) f = f x tr"
| "and_then (Halted tr) f = Halted tr"
| "and_then (OutOfFuel tr) f = OutOfFuel tr"

subsection \<open>The handlers\<close>

definition l_socket ::
  "platform \<Rightarrow> env \<Rightarrow> uint32 \<Rightarrow> uint32 \<Rightarrow> skel_req_t \<Rightarrow> event list \<Rightarrow> skel_req_t outcome" where
  "l_socket K E svc skreqp rq tr =
    (let args = [stub_op_p rq 0, stub_op_p rq 1, stub_op_p rq 2];
         result = net_call E tr P_socket args
     in returnToRemote K E svc skreqp rq result (tr @ [NetCall P_socket args result]))"

definition l_connect ::
  "platform \<Rightarrow> env \<Rightarrow> uint32 \<Rightarrow> uint32 \<Rightarrow> skel_req_t \<Rightarrow> event list \<Rightarrow> skel_req_t outcome" where
  "l_connect K E svc skreqp rq tr =
    (let s = stub_op_p rq 0;
         sockaddr = addr_of E tr connect_sockaddr;
         rq1 = rq\<lparr>stub_op_p := (stub_op_p rq)(1 := sockaddr)\<rparr>;
         socklen = stub_op_p rq1 2
     in and_then (paramsInFromRemote K E svc skreqp rq1 tr) (\<lambda>rq2 tr1.
          let args = [s, sockaddr, socklen];
              result = net_call E tr1 P_connect args
          in returnToRemote K E svc skreqp rq2 result (tr1 @ [NetCall P_connect args result])))"

definition l_close ::
  "platform \<Rightarrow> env \<Rightarrow> uint32 \<Rightarrow> uint32 \<Rightarrow> skel_req_t \<Rightarrow> event list \<Rightarrow> skel_req_t outcome" where
  "l_close K E svc skreqp rq tr =
    (let args = [stub_op_p rq 0];
         result = net_call E tr P_close args
     in returnToRemote K E svc skreqp rq result (tr @ [NetCall P_close args result]))"

definition l_recv ::
  "platform \<Rightarrow> env \<Rightarrow> uint32 \<Rightarrow> uint32 \<Rightarrow> skel_req_t \<Rightarrow> event list \<Rightarrow> skel_req_t outcome" where
  "l_recv K E svc skreqp rq tr =
    (let len = stub_op_p rq 2;
         mem = chHeapAlloc E tr len;
         tr1 = tr @ [HeapAlloc len mem];
         (result, rq1, tr2) =
           (if 0 = mem then (ENOMEM K, rq, tr1)
            else
              let args = [stub_op_p rq 0, mem, len, stub_op_p rq 3];
                  result = net_call E tr1 P_recv args;
                  rqa = rq\<lparr>stub_op_p_sz := (stub_op_p_sz rq)(1 := result)\<rparr>;
                  rqb = rqa\<lparr>stub_op_p := (stub_op_p rqa)(1 := mem)\<rparr>
              in (result, rqb, tr1 @ [NetCall P_recv args result]))
     in and_then (returnToRemote K E svc skreqp rq1 result tr2) (\<lambda>rq2 tr3.
          if 0 \<noteq> mem then Return rq2 (tr3 @ [HeapFree mem]) else Return rq2 tr3))"

definition l_send ::
  "platform \<Rightarrow> env \<Rightarrow> uint32 \<Rightarrow> uint32 \<Rightarrow> skel_req_t \<Rightarrow> event list \<Rightarrow> skel_req_t outcome" where
  "l_send K E svc skreqp rq tr =
    (let size = stub_op_p rq 2;
         dataptr = chHeapAlloc E tr size;
         tr1 = tr @ [HeapAlloc size dataptr]
     in and_then
          (if 0 = dataptr then Return (ENOMEM K, rq) tr1
           else
             let rq1 = rq\<lparr>stub_op_p := (stub_op_p rq)(1 := dataptr)\<rparr>
             in and_then (paramsInFromRemote K E svc skreqp rq1 tr1) (\<lambda>rq2 tr2.
                  let args = [stub_op_p rq2 0, dataptr, size, stub_op_p rq2 3];
                      result = net_call E tr2 P_send args
                  in Return (result, rq2) (tr2 @ [NetCall P_send args result, HeapFree dataptr])))
          (\<lambda>(result, rq3) tr3. returnToRemote K E svc skreqp rq3 result tr3))"

definition l_select ::
  "platform \<Rightarrow> env \<Rightarrow> uint32 \<Rightarrow> uint32 \<Rightarrow> skel_req_t \<Rightarrow> event list \<Rightarrow> skel_req_t outcome" where
  "l_select K E svc skreqp rq tr =
    (let maxfdpl = stub_op_p rq 0;
         rq1 = rq\<lparr>stub_op_p_sz := (stub_op_p_sz rq)(1 := sizeof K C_fd_set)\<rparr>;
         rq2 = rq1\<lparr>stub_op_p_sz := (stub_op_p_sz rq1)(2 := sizeof K C_fd_set)\<rparr>;
         rq3 = rq2\<lparr>stub_op_p_sz := (stub_op_p_sz rq2)(3 := sizeof K C_fd_set)\<rparr>;
         rq4 = rq3\<lparr>stub_op_p := (stub_op_p rq3)(1 := addr_of E tr select_readset)\<rparr>;
         rq5 = rq4\<lparr>stub_op_p := (stub_op_p rq4)(2 := addr_of E tr select_writeset)\<rparr>;
         rq6 = rq5\<lparr>stub_op_p := (stub_op_p rq5)(3 := addr_of E tr select_exceptset)\<rparr>;
         rq7 = rq6\<lparr>stub_op_p := (stub_op_p rq6)(4 := addr_of E tr select_timeout)\<rparr>
     in and_then (paramsInFromRemote K E svc skreqp rq7 tr) (\<lambda>rq8 tr1.
          let args = [maxfdpl, addr_of E tr select_readset, addr_of E tr select_writeset,
                      addr_of E tr select_exceptset, addr_of E tr select_timeout];
              result = net_call E tr1 P_select args
          in returnToRemote K E svc skreqp rq8 result (tr1 @ [NetCall P_select args result])))"

definition l_bind ::
  "platform \<Rightarrow> env \<Rightarrow> uint32 \<Rightarrow> uint32 \<Rightarrow> skel_req_t \<Rightarrow> event list \<Rightarrow> skel_req_t outcome" where
  "l_bind K E svc skreqp rq tr =
    (let s = stub_op_p rq 0;
         sockaddr = addr_of E tr bind_sockaddr;
         rq1 = rq\<lparr>stub_op_p := (stub_op_p rq)(1 := sockaddr)\<rparr>;
         socklen = stub_op_p rq1 2
     in and_then (paramsInFromRemote K E svc skreqp rq1 tr) (\<lambda>rq2 tr1.
          let args = [s, sockaddr, socklen];
              result = net_call E tr1 P_bind args
          in returnToRemote K E svc skreqp rq2 result (tr1 @ [NetCall P_bind args result])))"

definition l_listen ::
  "platform \<Rightarrow> env \<Rightarrow> uint32 \<Rightarrow> uint32 \<Rightarrow> skel_req_t \<Rightarrow> event list \<Rightarrow> skel_req_t outcome" where
  "l_listen K E svc skreqp rq tr =
    (let s = stub_op_p rq 0;
         backlog = stub_op_p rq 1;
         result = net_call E tr P_listen [s, backlog]
     in returnToRemote K E svc skreqp rq result (tr @ [NetCall P_listen [s, backlog] result]))"

definition l_write ::
  "platform \<Rightarrow> env \<Rightarrow> uint32 \<Rightarrow> uint32 \<Rightarrow> skel_req_t \<Rightarrow> event list \<Rightarrow> skel_req_t outcome" where
  "l_write K E svc skreqp rq tr =
    (let size = stub_op_p rq 2;
         dataptr = chHeapAlloc E tr size;
         tr1 = tr @ [HeapAlloc size dataptr]
     in and_then
          (if 0 = dataptr then Return (ENOMEM K, rq) tr1
           else
             let rq1 = rq\<lparr>stub_op_p := (stub_op_p rq)(1 := dataptr)\<rparr>
             in and_then (paramsInFromRemote K E svc skreqp rq1 tr1) (\<lambda>rq2 tr2.
                  let args = [stub_op_p rq2 0, dataptr, size];
                      result = net_call E tr2 P_write args
                  in Return (result, rq2) (tr2 @ [NetCall P_write args result, HeapFree dataptr])))
          (\<lambda>(result, rq3) tr3. returnToRemote K E svc skreqp rq3 result tr3))"

definition l_read ::
  "platform \<Rightarrow> env \<Rightarrow> uint32 \<Rightarrow> uint32 \<Rightarrow> skel_req_t \<Rightarrow> event list \<Rightarrow> skel_req_t outcome" where
  "l_read K E svc skreqp rq tr =
    (let len = stub_op_p rq 2;
         mem = chHeapAlloc E tr len;
         tr1 = tr @ [HeapAlloc len mem];
         (result, rq1, tr2) =
           (if 0 = mem then (ENOMEM K, rq, tr1)
            else
              let args = [stub_op_p rq 0, mem, len];
                  result = net_call E tr1 P_read args;
                  rqa = rq\<lparr>stub_op_p_sz := (stub_op_p_sz rq)(1 := result)\<rparr>;
                  rqb = rqa\<lparr>stub_op_p := (stub_op_p rqa)(1 := mem)\<rparr>
              in (result, rqb, tr1 @ [NetCall P_read args result]))
     in and_then (returnToRemote K E svc skreqp rq1 result tr2) (\<lambda>rq2 tr3.
          if 0 \<noteq> mem then Return rq2 (tr3 @ [HeapFree mem]) else Return rq2 tr3))"

definition l_getaddrinfo ::
  "platform \<Rightarrow> env \<Rightarrow> uint32 \<Rightarrow> uint32 \<Rightarrow> skel_req_t \<Rightarrow> event list \<Rightarrow> skel_req_t outcome" where
  "l_getaddrinfo K E svc skreqp rq tr =
    (let nodename = addr_of E tr getaddrinfo_nodename;
         servname = addr_of E tr getaddrinfo_servname;
         hints = addr_of E tr getaddrinfo_hints;
         res = addr_of E tr getaddrinfo_res;
         rq1 = rq\<lparr>stub_op_p := (stub_op_p rq)(0 := nodename)\<rparr>;
         rq2 = rq1\<lparr>stub_op_p := (stub_op_p rq1)(1 := servname)\<rparr>;
         rq3 = rq2\<lparr>stub_op_p := (stub_op_p rq2)(2 := hints)\<rparr>;
         rq4 = rq3\<lparr>stub_op_p_sz := (stub_op_p_sz rq3)(3 := sizeof K (local_type getaddrinfo_res))\<rparr>;
         rq5 = rq4\<lparr>stub_op_p := (stub_op_p rq4)(3 := res)\<rparr>
     in and_then (paramsInFromRemote K E svc skreqp rq5 tr) (\<lambda>rq6 tr1.
          let args = [nodename, servname, hints, res];
              result = net_call E tr1 P_getaddrinfo args
          in returnToRemote K E svc skreqp rq6 result
               (tr1 @ [NetCall P_getaddrinfo args result])))"

definition l_freeaddrinfo ::
  "platform \<Rightarrow> env \<Rightarrow> uint32 \<Rightarrow> uint32 \<Rightarrow> skel_req_t \<Rightarrow> event list \<Rightarrow> skel_req_t outcome" where
  "l_freeaddrinfo K E svc skreqp rq tr =
    (let result = 0;
         ai = addr_of E tr freeaddrinfo_ai;
         rq1 = rq\<lparr>stub_op_p := (stub_op_p rq)(0 := ai)\<rparr>
     in and_then (paramsInFromRemote K E svc skreqp rq1 tr) (\<lambda>rq2 tr1.
          returnToRemote K E svc skreqp rq2 result (tr1 @ [NetCall P_freeaddrinfo [ai] 0])))"

subsection \<open>The worker thread\<close>

text \<open>
  One turn of the loop of \<open>TsSockSkelDaemon\<close>: wait for a descriptor, then the \<open>switch\<close>
  on its operation code. The \<open>default\<close> branch only leaves the \<open>switch\<close>.
\<close>

definition TsSockSkelDaemon_turn ::
  "platform \<Rightarrow> env \<Rightarrow> uint32 \<Rightarrow> event list \<Rightarrow> skel_req_t outcome" where
  "TsSockSkelDaemon_turn K E svc tr =
    (let (skreqp, rq) = fifo_receive E tr;
         tr1 = tr @ [FifoReceive skreqp];
         c = stub_op_code rq
     in if c = STUB_OP_SOCKET K then l_socket K E svc skreqp rq tr1
        else if c = STUB_OP_CONNECT K then l_connect K E svc skreqp rq tr1
        else if c = STUB_OP_CLOSE K then l_close K E svc skreqp rq tr1
        else if c = STUB_OP_RECV K then l_recv K E svc skreqp rq tr1
        else if c = STUB_OP_SEND K then l_send K E svc skreqp rq tr1
        else if c = STUB_OP_SELECT K then l_select K E svc skreqp rq tr1
        else if c = STUB_OP_BIND K then l_bind K E svc skreqp rq tr1
        else if c = STUB_OP_LISTEN K then l_listen K E svc skreqp rq tr1
        else if c = STUB_OP_WRITE K then l_write K E svc skreqp rq tr1
        else if c = STUB_OP_READ K then l_read K E svc skreqp rq tr1
        else if c = STUB_OP_GETADDRINFO K then l_getaddrinfo K E svc skreqp rq tr1
        else if c = STUB_OP_FREEADDRINFO K then l_freeaddrinfo K E svc skreqp rq tr1
        else Return rq tr1)"

text \<open>The loop never ends by itself; with fuel \<open>n\<close> it is run for \<open>n\<close> turns.\<close>

fun TsSockSkelDaemon :: "platform \<Rightarrow> env \<Rightarrow> uint32 \<Rightarrow> nat \<Rightarrow> event list \<Rightarrow> unit outcome" where
  "TsSockSkelDaemon K E svc 0 tr = OutOfFuel tr"
| "TsSockSkelDaemon K E svc (Suc n) tr =
     and_then (TsSockSkelDaemon_turn K E svc tr) (\<lambda>rq tr1. TsSockSkelDaemon K E svc n tr1)"

text \<open>The codes of the dispatch table, and its handlers.\<close>

definition stub_ops :: "platform \<Rightarrow> uint32 list" where
  "stub_ops K =
    [STUB_OP_SOCKET K, STUB_OP_CONNECT K, STUB_OP_CLOSE K, STUB_OP_RECV K, STUB_OP_SEND K,
     STUB_OP_SELECT K, STUB_OP_BIND K, STUB_OP_LISTEN K, STUB_OP_WRITE K, STUB_OP_READ K,
     STUB_OP_GETADDRINFO K, STUB_OP_FREEADDRINFO K]"

definition handlers ::
  "(platform \<Rightarrow> env \<Rightarrow> uint32 \<Rightarrow> uint32 \<Rightarrow> skel_req_t \<Rightarrow> event list \<Rightarrow> skel_req_t outcome) list"
  where
  "handlers =
    [l_socket, l_connect, l_close, l_recv, l_send, l_select, l_bind, l_listen, l_write,
     l_read, l_getaddrinfo, l_freeaddrinfo]"

subsection \<open>The notification thread\<close>

text \<open>
  The start of \<open>TsSkelsDaemon\<close>, up to its endless loop: registration on the event source,
  the discovery of the service by name (the returned value is the handle), and the
  \<open>READY\<close> handshake, whose returned status is dropped.
\<close>

definition TsSkelsDaemon_start :: "platform \<Rightarrow> env \<Rightarrow> event list \<Rightarrow> uint32 outcome" where
  "TsSkelsDaemon_start K E tr =
    (let tr1 = tr @ [EvtRegister, InvokeCall (TS_HND_DISCOVERY K) (PA_name ''TsStubsService'')];
         tsStubsService = invoke_status E tr1 (TS_HND_DISCOVERY K) (PA_name ''TsStubsService'');
         tr2 = tr1 @ [InvokeRet tsStubsService];
         (skreqp, rq) = fifo_take E tr2;
         rq1 = rq\<lparr>req := SKEL_REQ_READY\<rparr>;
         tr3 = tr2 @ [FifoTake skreqp, InvokeCall tsStubsService (PA_req skreqp rq1)];
         r = invoke_status E tr3 tsStubsService (PA_req skreqp rq1)
     in Return tsStubsService (tr3 @ [InvokeRet r, FifoReturn skreqp]))"

text \<open>
  The inner loop \<open>while (true)\<close>: it returns, with the address of the descriptor it
  holds, when the service answers \<open>SMC_SVC_NHND\<close>.
\<close>

fun drain_ops :: "platform \<Rightarrow> env \<Rightarrow> uint32 \<Rightarrow> nat \<Rightarrow> event list \<Rightarrow> uint32 outcome" where
  "drain_ops K E svc 0 tr = OutOfFuel tr"
| "drain_ops K E svc (Suc n) tr =
    (let (skreqp, rq) = fifo_take E tr;
         rq1 = rq\<lparr>req := SKEL_REQ_GETOP\<rparr>;
         tr1 = tr @ [FifoTake skreqp, MtxLock, InvokeCall svc (PA_req skreqp rq1)];
         r = invoke_status E tr1 svc (PA_req skreqp rq1);
         rq2 = invoke_write E tr1 svc skreqp rq1;
         tr2 = tr1 @ [InvokeRet r]
     in if r = SMC_SVC_BUSY K then Halted (tr2 @ [Halt])
        else if r = SMC_SVC_NHND K then Return skreqp (tr2 @ [MtxUnlock])
        else drain_ops K E svc n (tr2 @ [MtxUnlock, FifoSend skreqp rq2]))"

text \<open>The outer loop \<open>for (;;)\<close>.\<close>

fun wait_and_drain :: "platform \<Rightarrow> env \<Rightarrow> uint32 \<Rightarrow> nat \<Rightarrow> event list \<Rightarrow> unit outcome" where
  "wait_and_drain K E svc 0 tr = OutOfFuel tr"
| "wait_and_drain K E svc (Suc n) tr =
     and_then (drain_ops K E svc n (tr @ [EvtWait, EvtGetAndClearFlags])) (\<lambda>skreqp tr1.
       wait_and_drain K E svc n (tr1 @ [FifoReturn skreqp]))"

definition TsSkelsDaemon :: "platform \<Rightarrow> env \<Rightarrow> nat \<Rightarrow> event list \<Rightarrow> unit outcome" where
  "TsSkelsDaemon K E n tr =
     and_then (TsSkelsDaemon_start K E tr) (\<lambda>svc tr1. wait_and_drain K E svc n tr1)"

subsection \<open>Observations on traces\<close>

text \<open>A monitor reads a trace event by event; \<open>None\<close> means that an event was refused.\<close>

fun run_monitor :: "('s \<Rightarrow> 'e \<Rightarrow> 's option) \<Rightarrow> 's \<Rightarrow> 'e list \<Rightarrow> 's option" where
  "run_monitor step s [] = Some s"
| "run_monitor step s (e # es) =
     (case step s e of None \<Rightarrow> None | Some s' \<Rightarrow> run_monitor step s' es)"

text \<open>
  The lock discipline of one thread on \<open>tsStubsServiceMtx\<close>. An invocation that \<open>g\<close>
  selects must be called with the lock just taken, and the lock is released right after
  that invocation returns; nothing else happens while the lock is held.
\<close>

datatype lock_state = Free | Held | InFlight | Invoked

fun lock_step :: "(params_area \<Rightarrow> bool) \<Rightarrow> lock_state \<Rightarrow> event \<Rightarrow> lock_state option" where
  "lock_step g s MtxLock = (if s = Free then Some Held else None)"
| "lock_step g s MtxUnlock = (if s = Invoked then Some Free else None)"
| "lock_step g s (InvokeCall h pa) =
     (if g pa then (if s = Held then Some InFlight else None) else Some s)"
| "lock_step g s (InvokeRet r) = (if s = InFlight then Some Invoked else Some s)"
| "lock_step g s Halt = Some s"
| "lock_step g s e = (if s = Free then Some Free else None)"

definition lock_run :: "(params_area \<Rightarrow> bool) \<Rightarrow> event list \<Rightarrow> lock_state option" where
  "lock_run g evs = run_monitor (lock_step g) Free evs"

text \<open>The invocations of the three phases of the running system, and all invocations.\<close>

fun locked_phase :: "params_area \<Rightarrow> bool" where
  "locked_phase (PA_name n) = False"
| "locked_phase (PA_req p rq) =
     (req rq = SKEL_REQ_CPYPRMS \<or> req rq = SKEL_REQ_PUTRES \<or> req rq = SKEL_REQ_GETOP)"

definition every_invoke :: "params_area \<Rightarrow> bool" where
  "every_invoke pa = True"

text \<open>
  Modelled from the spec: the mutex of ch.h, a single mutual-exclusion lock. A schedule
  is the interleaving of the events of the threads, each with the number of its thread;
  \<open>chMtxLock\<close> returns only when no thread owns the mutex, and the owner releases it.
\<close>

fun mutex_step :: "nat option \<Rightarrow> nat \<times> event \<Rightarrow> nat option option" where
  "mutex_step owner (t, MtxLock) = (if owner = None then Some (Some t) else None)"
| "mutex_step owner (t, MtxUnlock) = (if owner = Some t then Some None else None)"
| "mutex_step owner (t, e) = Some owner"

definition mutex_run :: "(nat \<times> event) list \<Rightarrow> nat option option" where
  "mutex_run sched = run_monitor mutex_step None sched"

definition thread_events :: "nat \<Rightarrow> (nat \<times> event) list \<Rightarrow> event list" where
  "thread_events t sched = map snd (filter (\<lambda>x. fst x = t) sched)"

text \<open>Thread \<open>t\<close> is inside an invocation that \<open>g\<close> selects.\<close>

definition in_flight :: "(params_area \<Rightarrow> bool) \<Rightarrow> nat \<Rightarrow> (nat \<times> event) list \<Rightarrow> bool" where
  "in_flight g t sched = (lock_run g (thread_events t sched) = Some InFlight)"

text \<open>
  The events of a thread of the module at some moment: the beginning of a run of a
  worker or of the notification thread.
\<close>

definition worker_trace :: "platform \<Rightarrow> event list \<Rightarrow> bool" where
  "worker_trace K evs = (\<exists>E svc n. prefix evs (trace_of (TsSockSkelDaemon K E svc n [])))"

definition notifier_trace :: "platform \<Rightarrow> event list \<Rightarrow> bool" where
  "notifier_trace K evs = (\<exists>E n. prefix evs (trace_of (TsSkelsDaemon K E n [])))"

text \<open>
  A thread has an invocation in flight when it has called \<open>tsInvokeServiceNoYield\<close>,
  whatever the phase, and the call has not returned yet.
\<close>

fun pending :: "bool \<Rightarrow> event list \<Rightarrow> bool" where
  "pending b [] = b"
| "pending b (InvokeCall h pa # es) = pending True es"
| "pending b (InvokeRet r # es) = pending False es"
| "pending b (e # es) = pending b es"

definition invoking :: "nat \<Rightarrow> (nat \<times> event) list \<Rightarrow> bool" where
  "invoking t sched = pending False (thread_events t sched)"

text \<open>
  The two kinds of threads that \<open>tsSkelsDaemonInit\<close> creates: the workers
  (\<open>TsSockSkelDaemon\<close>) and the one notification thread (\<open>TsSkelsDaemon\<close>).
\<close>

datatype role = Worker | Notifier

text \<open>
  The discipline of one thread, with the startup: the state is the state of the lock, whether
  an invocation outside of the lock is open, and whether the thread has passed a descriptor
  through the queue of the fifo (sent it, or received it). An invocation of the three
  phases is made as in \<open>lock_step\<close>; another invocation comes only from the notification
  thread, with the lock free, and before the thread has sent anything; a worker does
  nothing before it has received a descriptor; only the notification thread sends and only
  workers receive.
\<close>

fun thread_step ::
  "role \<Rightarrow> lock_state \<times> bool \<times> bool \<Rightarrow> event \<Rightarrow> (lock_state \<times> bool \<times> bool) option" where
  "thread_step ro (lk, opn, ho) (FifoReceive p) =
     (if ro = Worker \<and> lk = Free \<and> \<not> opn then Some (Free, False, True) else None)"
| "thread_step ro (lk, opn, ho) (FifoSend p rq) =
     (if ro = Notifier \<and> lk = Free \<and> \<not> opn then Some (Free, False, True) else None)"
| "thread_step ro (lk, opn, ho) (InvokeCall h pa) =
     (if locked_phase pa
      then (if lk = Held \<and> \<not> opn \<and> (ro = Notifier \<or> ho) then Some (InFlight, False, ho) else None)
      else (if ro = Notifier \<and> lk = Free \<and> \<not> opn \<and> \<not> ho then Some (Free, True, False)
            else None))"
| "thread_step ro (lk, opn, ho) (InvokeRet r) =
     (if opn then (if lk = Free then Some (Free, False, ho) else None)
      else if lk = InFlight then Some (Invoked, False, ho) else None)"
| "thread_step ro (lk, opn, ho) MtxLock =
     (if lk = Free \<and> \<not> opn \<and> (ro = Notifier \<or> ho) then Some (Held, False, ho) else None)"
| "thread_step ro (lk, opn, ho) MtxUnlock =
     (if lk = Invoked \<and> \<not> opn then Some (Free, False, ho) else None)"
| "thread_step ro (lk, opn, ho) Halt = (if lk = Invoked \<and> \<not> opn then Some (lk, opn, ho) else None)"
| "thread_step ro (lk, opn, ho) e =
     (if lk = Free \<and> \<not> opn \<and> (ro = Notifier \<or> ho) then Some (lk, opn, ho) else None)"

definition thread_run :: "role \<Rightarrow> event list \<Rightarrow> (lock_state \<times> bool \<times> bool) option" where
  "thread_run ro evs = run_monitor (thread_step ro) (Free, False, False) evs"

text \<open>
  Modelled from the spec: the queue of the objects fifo of chobjfifos.h, on which the
  workers block: \<open>chFifoReceiveObjectTimeout\<close> returns a descriptor only when one has been
  sent with \<open>chFifoSendObject\<close> and not received yet. The state is the number of
  descriptors in the queue.
\<close>

fun fifo_step :: "nat \<Rightarrow> nat \<times> event \<Rightarrow> nat option" where
  "fifo_step q (t, FifoSend p rq) = Some (Suc q)"
| "fifo_step q (t, FifoReceive p) = (case q of 0 \<Rightarrow> None | Suc q' \<Rightarrow> Some q')"
| "fifo_step q (t, e) = Some q"

definition fifo_run :: "(nat \<times> event) list \<Rightarrow> nat option" where
  "fifo_run sched = run_monitor fifo_step 0 sched"

text \<open>
  The fate of a \<open>SMC_SVC_BUSY\<close> status. After the return of an invocation that \<open>g\<close>
  selects with this status, the only event is \<open>Halt\<close>, and it is the last one.
\<close>

datatype busy_state = Idle | Pending | Fatal | Dead

fun busy_step ::
  "platform \<Rightarrow> (params_area \<Rightarrow> bool) \<Rightarrow> busy_state \<Rightarrow> event \<Rightarrow> busy_state option" where
  "busy_step K g s (InvokeCall h pa) =
     (if s = Idle then Some (if g pa then Pending else Idle) else None)"
| "busy_step K g s (InvokeRet r) =
     (if s = Pending then Some (if r = SMC_SVC_BUSY K then Fatal else Idle)
      else if s = Idle then Some Idle else None)"
| "busy_step K g s Halt = (if s = Fatal then Some Dead else None)"
| "busy_step K g s e = (if s = Idle \<or> s = Pending then Some s else None)"

definition busy_run :: "platform \<Rightarrow> (params_area \<Rightarrow> bool) \<Rightarrow> event list \<Rightarrow> busy_state option"
  where
  "busy_run K g evs = run_monitor (busy_step K g) Idle evs"

text \<open>
  The order of the steps of one request: the copy-in is complete when the lock is
  released after its invocation has returned; a primitive is called only then; the copy-out
  is called after the primitive has returned, or with no copy-in and no primitive at all.
\<close>

datatype stage = Fresh | CopyInCalled | CopyInReturned | CopyInDone | PrimDone | CopyOutCalled

fun order_step :: "stage \<Rightarrow> event \<Rightarrow> stage option" where
  "order_step s (InvokeCall h (PA_req p rq)) =
     (if req rq = SKEL_REQ_CPYPRMS then (if s = Fresh then Some CopyInCalled else None)
      else if req rq = SKEL_REQ_PUTRES
        then (if s = PrimDone \<or> s = Fresh then Some CopyOutCalled else None)
      else Some s)"
| "order_step s (InvokeRet r) = Some (if s = CopyInCalled then CopyInReturned else s)"
| "order_step s MtxUnlock = Some (if s = CopyInReturned then CopyInDone else s)"
| "order_step s (NetCall f args r) = (if s = CopyInDone then Some PrimDone else None)"
| "order_step s e = Some s"

definition order_run :: "event list \<Rightarrow> stage option" where
  "order_run evs = run_monitor order_step Fresh evs"

text \<open>The handlers of the operations that have 'in' parameters.\<close>

definition in_handlers ::
  "(platform \<Rightarrow> env \<Rightarrow> uint32 \<Rightarrow> uint32 \<Rightarrow> skel_req_t \<Rightarrow> event list \<Rightarrow> skel_req_t outcome) list"
  where
  "in_handlers = [l_connect, l_bind, l_send, l_write, l_select, l_getaddrinfo, l_freeaddrinfo]"

text \<open>
  What a trace holds: the descriptors passed to the invocations of a phase, the calls of
  the primitives, the descriptors given back to the pool, the blocks freed.
\<close>

fun snapshots :: "skel_req_phase \<Rightarrow> event list \<Rightarrow> (uint32 \<times> skel_req_t) list" where
  "snapshots ph [] = []"
| "snapshots ph (InvokeCall h (PA_req p rq) # es) =
     (if req rq = ph then (p, rq) # snapshots ph es else snapshots ph es)"
| "snapshots ph (e # es) = snapshots ph es"

fun net_calls :: "event list \<Rightarrow> (prim \<times> uint32 list \<times> uint32) list" where
  "net_calls [] = []"
| "net_calls (NetCall f args r # es) = (f, args, r) # net_calls es"
| "net_calls (e # es) = net_calls es"

fun releases :: "event list \<Rightarrow> uint32 list" where
  "releases [] = []"
| "releases (FifoReturn p # es) = p # releases es"
| "releases (e # es) = releases es"

fun frees :: "event list \<Rightarrow> uint32 list" where
  "frees [] = []"
| "frees (HeapFree a # es) = a # frees es"
| "frees (e # es) = frees es"

text \<open>
  A copy-out is called with, in parameter slot 1 of the descriptor, the address of a block
  that was freed before this call.
\<close>

fun stale_slot1 :: "uint32 list \<Rightarrow> event list \<Rightarrow> bool" where
  "stale_slot1 freed [] = False"
| "stale_slot1 freed (HeapFree a # es) = stale_slot1 (a # freed) es"
| "stale_slot1 freed (InvokeCall h (PA_req p rq) # es) =
     ((req rq = SKEL_REQ_PUTRES \<and> stub_op_p rq 1 \<in> set freed) \<or> stale_slot1 freed es)"
| "stale_slot1 freed (e # es) = stale_slot1 freed es"

text \<open>The service leaves parameter slot 1 of a descriptor as the caller wrote it.\<close>

definition keeps_slot1 :: "env \<Rightarrow> bool" where
  "keeps_slot1 E = (\<forall>tr h p rq. stub_op_p (invoke_write E tr h p rq) 1 = stub_op_p rq 1)"

subsection \<open>An instance to run the code on\<close>

text \<open>
  Values for the parameters, to evaluate the code on concrete inputs: twelve different
  operation codes, two different statuses, and an environment.
\<close>

definition K0 :: platform where
  "K0 = \<lparr>STUB_OP_SOCKET = 0, STUB_OP_CONNECT = 1, STUB_OP_CLOSE = 2, STUB_OP_RECV = 3,
         STUB_OP_SEND = 4, STUB_OP_SELECT = 5, STUB_OP_BIND = 6, STUB_OP_LISTEN = 7,
         STUB_OP_WRITE = 8, STUB_OP_READ = 9, STUB_OP_GETADDRINFO = 10,
         STUB_OP_FREEADDRINFO = 11, SMC_SVC_BUSY = 0xFFFFFFFC, SMC_SVC_NHND = 0xFFFFFFFB,
         ENOMEM = 12, TS_HND_DISCOVERY = 2, sizeof_other = (\<lambda>t. 16)\<rparr>"

definition rq0 :: "uint32 \<Rightarrow> skel_req_t" where
  "rq0 c = \<lparr>req = SKEL_REQ_GETOP, stub_op_code = c, stub_op_result = 0,
            stub_op_p_sz = (\<lambda>i. 64), stub_op_p = (\<lambda>i. 10 + of_nat i)\<rparr>"

text \<open>
  \<open>E0 c a st gs\<close>: the worker receives the descriptor at address 0x100 with operation
  code \<open>c\<close>; the heap answers \<open>a\<close>; the channel answers 7 to the discovery, \<open>st\<close> to the
  \<open>READY\<close> handshake, \<open>gs\<close> to \<open>GETOP\<close> and 0 to the two other phases, and leaves the
  descriptor as it is; the primitives return 3; the pool hands out a new address at each
  take (0x100 at the first take of the draining loop).
\<close>

definition E0 :: "uint32 \<Rightarrow> uint32 \<Rightarrow> msg_t \<Rightarrow> msg_t \<Rightarrow> env" where
  "E0 c a st gs =
    \<lparr>invoke_status = (\<lambda>tr h pa.
        case pa of PA_name n \<Rightarrow> 7
        | PA_req p rq \<Rightarrow>
            (case req rq of SKEL_REQ_READY \<Rightarrow> st | SKEL_REQ_GETOP \<Rightarrow> gs
             | SKEL_REQ_CPYPRMS \<Rightarrow> 0 | SKEL_REQ_PUTRES \<Rightarrow> 0)),
     invoke_write = (\<lambda>tr h p rq. rq),
     chHeapAlloc = (\<lambda>tr n. a),
     net_call = (\<lambda>tr f args. 3),
     addr_of = (\<lambda>tr v. 0x2000),
     fifo_take = (\<lambda>tr. (0xF7 + of_nat (length tr), rq0 0)),
     fifo_receive = (\<lambda>tr. (0x100, rq0 c))\<rparr>"

text \<open>
  A schedule of two threads. Thread 0, the notification thread, has started, has
  retrieved one operation and sent it to the workers, and is inside its second \<open>GETOP\<close>
  invocation; thread 1, a worker, has received the operation (a \<open>close\<close>) and has called
  the primitive.
\<close>

definition sched0 :: "(nat \<times> event) list" where
  "sched0 =
    [(0, EvtRegister), (0, InvokeCall 2 (PA_name ''TsStubsService'')), (0, InvokeRet 7),
     (0, FifoTake 0xFA),
     (0, InvokeCall 7 (PA_req 0xFA ((rq0 0)\<lparr>req := SKEL_REQ_READY\<rparr>))),
     (0, InvokeRet 0), (0, FifoReturn 0xFA), (0, EvtWait), (0, EvtGetAndClearFlags),
     (0, FifoTake 0x100), (0, MtxLock), (0, InvokeCall 7 (PA_req 0x100 (rq0 0))),
     (0, InvokeRet 0), (0, MtxUnlock), (0, FifoSend 0x100 (rq0 0)),
     (1, FifoReceive 0x100),
     (0, FifoTake 0x106), (0, MtxLock),
     (1, NetCall P_close [10] 3),
     (0, InvokeCall 7 (PA_req 0x106 (rq0 0)))]"

section \<open>Properties\<close>

subsection \<open>Auxiliary facts\<close>

lemmas prim_defs = paramsInFromRemote_def returnToRemote_def

lemmas handler_defs = l_socket_def l_connect_def l_close_def l_recv_def l_send_def l_select_def
  l_bind_def l_listen_def l_write_def l_read_def l_getaddrinfo_def l_freeaddrinfo_def

lemmas inst_defs = K0_def E0_def rq0_def

lemma run_monitor_append:
  "run_monitor step s (a @ b) =
     (case run_monitor step s a of None \<Rightarrow> None | Some s' \<Rightarrow> run_monitor step s' b)"
  by (induction a arbitrary: s) (auto split: option.splits)

lemma run_monitor_snoc:
  "run_monitor step s (a @ [e]) =
     (case run_monitor step s a of None \<Rightarrow> None | Some s' \<Rightarrow> step s' e)"
  by (simp add: run_monitor_append split: option.splits)

text \<open>A handler only adds events to the trace it starts from.\<close>

lemma handler_extends:
  "h \<in> set handlers \<Longrightarrow>
     trace_of (h K E svc p rq tr) = tr @ events_since tr (h K E svc p rq tr)"
  unfolding handlers_def
  by (auto simp: handler_defs prim_defs Let_def events_since_def split: if_splits)

text \<open>A handler returns or halts; it has no loop.\<close>

lemma handler_total:
  "h \<in> set handlers \<Longrightarrow> returned (h K E svc p rq tr) \<or> halted (h K E svc p rq tr)"
  unfolding handlers_def
  by (auto simp: handler_defs prim_defs Let_def split: if_splits)

subsection \<open>Unknown operation codes\<close>

text \<open>With a code outside of the table, a turn of the worker is the reception only.\<close>

lemma unknown_code_turn:
  assumes "fifo_receive E tr = (p, rq)" and "stub_op_code rq \<notin> set (stub_ops K)"
  shows "TsSockSkelDaemon_turn K E svc tr = Return rq (tr @ [FifoReceive p])"
  using assms by (simp add: TsSockSkelDaemon_turn_def stub_ops_def)

text \<open>
  C2. A request with an operation code that is not in the dispatch table (here 99) runs no
  handler and delivers no result, and the descriptor is not given back to the pool: the
  turn of the worker consists of the reception alone, with no \<open>chFifoReturnObject\<close>. The
  same descriptor with the code of \<open>close\<close> is given back.
\<close>

theorem unknown_code_slot_not_released:
  "99 \<notin> set (stub_ops K0) \<and>
   TsSockSkelDaemon_turn K0 (E0 99 0 0 0) 7 [] = Return (rq0 99) [FifoReceive 0x100] \<and>
   releases (trace_of (TsSockSkelDaemon_turn K0 (E0 99 0 0 0) 7 [])) = [] \<and>
   releases (trace_of (TsSockSkelDaemon_turn K0 (E0 2 0 0 0) 7 [])) = [0x100]"
  by (simp add: TsSockSkelDaemon_turn_def stub_ops_def inst_defs l_close_def prim_defs Let_def)

subsection \<open>One copy-out and one release for each request\<close>

lemma handler_halts_on_busy:
  "h \<in> set handlers \<Longrightarrow>
   halted (h K E svc p rq tr) =
     (InvokeRet (SMC_SVC_BUSY K) \<in> set (events_since tr (h K E svc p rq tr)))"
  unfolding handlers_def
  by (auto simp: handler_defs prim_defs Let_def events_since_def split: if_splits)

lemma handler_returned:
  "h \<in> set handlers \<Longrightarrow>
   map fst (snapshots SKEL_REQ_PUTRES (events_since tr (h K E svc p rq tr))) =
     (if returned (h K E svc p rq tr) then [p]
      else map fst (snapshots SKEL_REQ_PUTRES (events_since tr (h K E svc p rq tr)))) \<and>
   releases (events_since tr (h K E svc p rq tr)) =
     (if returned (h K E svc p rq tr) then [p] else [])"
  unfolding handlers_def
  by (auto simp: handler_defs prim_defs Let_def events_since_def split: if_splits)

lemma handler_halted:
  "h \<in> set handlers \<Longrightarrow>
   (if halted (h K E svc p rq tr)
    then length (snapshots SKEL_REQ_PUTRES (events_since tr (h K E svc p rq tr))) \<le> 1 \<and>
         take 2 (rev (events_since tr (h K E svc p rq tr))) = [Halt, InvokeRet (SMC_SVC_BUSY K)]
    else True)"
  unfolding handlers_def
  by (auto simp: handler_defs prim_defs Let_def events_since_def split: if_splits)

text \<open>
  C3 (as amended). Each of the twelve handlers, on every input and in every environment,
  returns exactly when none of its invocations answers \<open>SMC_SVC_BUSY\<close>, and halts on the
  failed assertion otherwise. When it returns (the paths of a failed allocation
  included) it has made exactly one \<open>PUTRES\<close> invocation, on its descriptor, and has given
  exactly this descriptor back to the pool, once. When an invocation answers
  \<open>SMC_SVC_BUSY\<close>, the halt is the next and last event: the descriptor is not given back,
  and at most one \<open>PUTRES\<close> invocation has been made.
\<close>

theorem one_copy_out_one_release:
  assumes "h \<in> set handlers"
  shows
  "halted (h K E svc p rq tr) =
     (InvokeRet (SMC_SVC_BUSY K) \<in> set (events_since tr (h K E svc p rq tr))) \<and>
   returned (h K E svc p rq tr) =
     (InvokeRet (SMC_SVC_BUSY K) \<notin> set (events_since tr (h K E svc p rq tr))) \<and>
   (if returned (h K E svc p rq tr)
    then map fst (snapshots SKEL_REQ_PUTRES (events_since tr (h K E svc p rq tr))) = [p] \<and>
         releases (events_since tr (h K E svc p rq tr)) = [p]
    else length (snapshots SKEL_REQ_PUTRES (events_since tr (h K E svc p rq tr))) \<le> 1 \<and>
         releases (events_since tr (h K E svc p rq tr)) = [] \<and>
         take 2 (rev (events_since tr (h K E svc p rq tr))) =
           [Halt, InvokeRet (SMC_SVC_BUSY K)])"
proof -
  let ?out = "h K E svc p rq tr"
  note b = handler_halts_on_busy [OF assms, of K E svc p rq tr]
  from handler_total [OF assms, of K E svc p rq tr]
  have r: "returned ?out = (\<not> halted ?out)" by (cases ?out) simp_all
  note ret = handler_returned [OF assms, of tr K E svc p rq]
  note hal = handler_halted [OF assms, of K E svc p rq tr]
  show ?thesis
  proof (cases "returned ?out")
    case True
    with b r ret show ?thesis by simp
  next
    case False
    with r have "halted ?out" by simp
    with b r ret hal False show ?thesis by simp
  qed
qed

theorem one_copy_out_one_release_witness:
  "l_recv \<in> set handlers \<and>
   returned (l_recv K0 (E0 3 0 0 0) 7 0x100 (rq0 3) []) \<and>
   InvokeRet (SMC_SVC_BUSY K0) \<notin> set (events_since [] (l_recv K0 (E0 3 0 0 0) 7 0x100 (rq0 3) [])) \<and>
   map fst (snapshots SKEL_REQ_PUTRES (events_since [] (l_recv K0 (E0 3 0 0 0) 7 0x100 (rq0 3) [])))
     = [0x100] \<and>
   releases (events_since [] (l_recv K0 (E0 3 0 0 0) 7 0x100 (rq0 3) [])) = [0x100]"
proof -
  have h: "l_recv \<in> set handlers" by (simp add: handlers_def)
  have r: "returned (l_recv K0 (E0 3 0 0 0) 7 0x100 (rq0 3) [])"
    by (simp add: l_recv_def prim_defs inst_defs Let_def)
  from one_copy_out_one_release [OF h, where K = K0 and E = "E0 3 0 0 0" and svc = 7 and p = "0x100"
      and rq = "rq0 3" and tr = "[]"] h r
  show ?thesis by simp
qed

text \<open>
  The claim C3 as stated fails where the copy-in of \<open>l_send\<close> answers \<open>SMC_SVC_BUSY\<close>:
  the assertion halts the system, with no \<open>PUTRES\<close> invocation and no release (and the
  block is not freed).
\<close>

theorem busy_copy_in_no_copy_out_no_release:
  "l_send \<in> set handlers \<and>
   l_send K0 ((E0 4 0x3000 0 0)\<lparr>invoke_status := \<lambda>tr h pa. SMC_SVC_BUSY K0\<rparr>) 7 0x100 (rq0 4) [] =
     Halted [HeapAlloc 12 0x3000, MtxLock,
       InvokeCall 7 (PA_req 0x100
         ((rq0 4)\<lparr>req := SKEL_REQ_CPYPRMS, stub_op_p := (stub_op_p (rq0 4))(1 := 0x3000)\<rparr>)),
       InvokeRet (SMC_SVC_BUSY K0), Halt] \<and>
   snapshots SKEL_REQ_PUTRES (events_since []
     (l_send K0 ((E0 4 0x3000 0 0)\<lparr>invoke_status := \<lambda>tr h pa. SMC_SVC_BUSY K0\<rparr>) 7 0x100
        (rq0 4) [])) = [] \<and>
   releases (events_since []
     (l_send K0 ((E0 4 0x3000 0 0)\<lparr>invoke_status := \<lambda>tr h pa. SMC_SVC_BUSY K0\<rparr>) 7 0x100
        (rq0 4) [])) = []"
  by (simp add: handlers_def l_send_def prim_defs inst_defs Let_def events_since_def)

subsection \<open>Copy-in, primitive, copy-out\<close>

text \<open>
  C4. For connect, bind, send, write, select, getaddrinfo and freeaddrinfo, on every input
  and in every environment, the events of the handler are accepted by the order monitor: a
  primitive is called only after the copy-in invocation has returned and its lock is
  released, and the copy-out invocation is called after the primitive has returned (or,
  when the allocation of send and write fails, with no copy-in and no primitive). A handler
  that returns has called the copy-out, and it has called its primitive unless the
  allocation failed.
\<close>

theorem copy_in_then_primitive_then_copy_out:
  "h \<in> set in_handlers \<Longrightarrow>
   (case h K E svc p rq tr of
      Return rq' tr' \<Rightarrow>
        order_run (events_since tr (h K E svc p rq tr)) = Some CopyOutCalled \<and>
        (net_calls (events_since tr (h K E svc p rq tr)) = []) =
          (HeapAlloc (stub_op_p rq 2) 0 \<in> set (events_since tr (h K E svc p rq tr)))
    | Halted tr' \<Rightarrow>
        order_run (events_since tr (h K E svc p rq tr)) = Some CopyInReturned \<or>
        order_run (events_since tr (h K E svc p rq tr)) = Some CopyOutCalled
    | OutOfFuel tr' \<Rightarrow> False)"
  unfolding in_handlers_def
  by (auto simp: handler_defs prim_defs Let_def events_since_def order_run_def split: if_splits)

theorem copy_in_then_primitive_then_copy_out_witness:
  "l_send \<in> set in_handlers \<and>
   events_since [] (l_send K0 (E0 4 0x3000 0 0) 7 0x100 (rq0 4) []) =
     [HeapAlloc 12 0x3000, MtxLock,
      InvokeCall 7 (PA_req 0x100
        ((rq0 4)\<lparr>req := SKEL_REQ_CPYPRMS, stub_op_p := (stub_op_p (rq0 4))(1 := 0x3000)\<rparr>)),
      InvokeRet 0, MtxUnlock, NetCall P_send [10, 0x3000, 12, 13] 3, HeapFree 0x3000, MtxLock,
      InvokeCall 7 (PA_req 0x100
        ((rq0 4)\<lparr>req := SKEL_REQ_PUTRES, stub_op_result := 3,
                  stub_op_p := (stub_op_p (rq0 4))(1 := 0x3000)\<rparr>)),
      InvokeRet 0, MtxUnlock, FifoReturn 0x100] \<and>
   order_run (events_since [] (l_send K0 (E0 4 0x3000 0 0) 7 0x100 (rq0 4) [])) =
     Some CopyOutCalled"
proof -
  have h: "l_send \<in> set in_handlers" by (simp add: in_handlers_def)
  have e: "l_send K0 (E0 4 0x3000 0 0) 7 0x100 (rq0 4) [] =
    Return ((rq0 4)\<lparr>req := SKEL_REQ_PUTRES, stub_op_result := 3,
                  stub_op_p := (stub_op_p (rq0 4))(1 := 0x3000)\<rparr>)
     [HeapAlloc 12 0x3000, MtxLock,
      InvokeCall 7 (PA_req 0x100
        ((rq0 4)\<lparr>req := SKEL_REQ_CPYPRMS, stub_op_p := (stub_op_p (rq0 4))(1 := 0x3000)\<rparr>)),
      InvokeRet 0, MtxUnlock, NetCall P_send [10, 0x3000, 12, 13] 3, HeapFree 0x3000, MtxLock,
      InvokeCall 7 (PA_req 0x100
        ((rq0 4)\<lparr>req := SKEL_REQ_PUTRES, stub_op_result := 3,
                  stub_op_p := (stub_op_p (rq0 4))(1 := 0x3000)\<rparr>)),
      InvokeRet 0, MtxUnlock, FifoReturn 0x100]"
    by (simp add: l_send_def prim_defs inst_defs Let_def)
  from copy_in_then_primitive_then_copy_out [OF h, where K = K0 and E = "E0 4 0x3000 0 0"
      and svc = 7 and p = "0x100" and rq = "rq0 4" and tr = "[]"]
  show ?thesis using h by (simp add: e events_since_def)
qed

subsection \<open>The receive handler\<close>

text \<open>
  C5. When \<open>chHeapAlloc\<close> returns \<open>NULL\<close> in \<open>l_recv\<close>, the handler calls no primitive and
  frees nothing; its events are the failed allocation and one \<open>PUTRES\<close> invocation, under
  the lock, on a descriptor whose result is \<open>ENOMEM\<close> and whose parameter slots and size
  fields are the incoming ones; then the descriptor goes back to the pool and the handler
  returns (unless the invocation answers \<open>SMC_SVC_BUSY\<close>, where the assertion halts).
\<close>

theorem recv_alloc_failure:
  assumes "chHeapAlloc E tr (stub_op_p rq 2) = 0"
  shows "\<exists>r d. events_since tr (l_recv K E svc p rq tr) =
            [HeapAlloc (stub_op_p rq 2) 0, MtxLock, InvokeCall svc (PA_req p d), InvokeRet r]
            @ (if r = SMC_SVC_BUSY K then [Halt] else [MtxUnlock, FifoReturn p]) \<and>
          req d = SKEL_REQ_PUTRES \<and> stub_op_result d = ENOMEM K \<and>
          stub_op_p d = stub_op_p rq \<and> stub_op_p_sz d = stub_op_p_sz rq \<and>
          returned (l_recv K E svc p rq tr) = (r \<noteq> SMC_SVC_BUSY K)"
  using assms
  by (auto simp: l_recv_def prim_defs Let_def events_since_def)

theorem recv_alloc_failure_witness:
  "chHeapAlloc (E0 3 0 0 0) [] (stub_op_p (rq0 3) 2) = 0 \<and>
   events_since [] (l_recv K0 (E0 3 0 0 0) 7 0x100 (rq0 3) []) =
     [HeapAlloc 12 0, MtxLock,
      InvokeCall 7 (PA_req 0x100 ((rq0 3)\<lparr>req := SKEL_REQ_PUTRES, stub_op_result := 12\<rparr>)),
      InvokeRet 0, MtxUnlock, FifoReturn 0x100] \<and>
   returned (l_recv K0 (E0 3 0 0 0) 7 0x100 (rq0 3) [])"
proof -
  have a: "chHeapAlloc (E0 3 0 0 0) [] (stub_op_p (rq0 3) 2) = 0" by (simp add: inst_defs)
  from recv_alloc_failure [OF a, where K = K0 and svc = 7 and p = "0x100"] obtain r d
    where "events_since [] (l_recv K0 (E0 3 0 0 0) 7 0x100 (rq0 3) []) =
            [HeapAlloc (stub_op_p (rq0 3) 2) 0, MtxLock, InvokeCall 7 (PA_req 0x100 d), InvokeRet r]
            @ (if r = SMC_SVC_BUSY K0 then [Halt] else [MtxUnlock, FifoReturn 0x100])"
    by blast
  moreover have "events_since [] (l_recv K0 (E0 3 0 0 0) 7 0x100 (rq0 3) []) =
     [HeapAlloc 12 0, MtxLock,
      InvokeCall 7 (PA_req 0x100 ((rq0 3)\<lparr>req := SKEL_REQ_PUTRES, stub_op_result := 12\<rparr>)),
      InvokeRet 0, MtxUnlock, FifoReturn 0x100]"
    by (simp add: l_recv_def prim_defs inst_defs Let_def events_since_def)
  moreover have "returned (l_recv K0 (E0 3 0 0 0) 7 0x100 (rq0 3) [])"
    by (simp add: l_recv_def prim_defs inst_defs Let_def)
  ultimately show ?thesis using a by simp
qed

text \<open>
  C7. When the allocation of \<open>l_recv\<close> succeeds: the block is allocated with the length of
  slot 2; \<open>recv\<close> is called with slot 0, the block, that length and slot 3; the descriptor
  of the one \<open>PUTRES\<close> invocation has the return value of \<open>recv\<close> in size field 1 and as
  its result, and the address of the block in slot 1; the block is freed last, after the
  invocation has returned and the descriptor is back in the pool.
\<close>

theorem recv_success:
  assumes "chHeapAlloc E tr (stub_op_p rq 2) = mem" and "mem \<noteq> 0"
  shows "\<exists>res r d. events_since tr (l_recv K E svc p rq tr) =
            [HeapAlloc (stub_op_p rq 2) mem,
             NetCall P_recv [stub_op_p rq 0, mem, stub_op_p rq 2, stub_op_p rq 3] res,
             MtxLock, InvokeCall svc (PA_req p d), InvokeRet r]
            @ (if r = SMC_SVC_BUSY K then [Halt] else [MtxUnlock, FifoReturn p, HeapFree mem]) \<and>
          res = net_call E (tr @ [HeapAlloc (stub_op_p rq 2) mem]) P_recv
                  [stub_op_p rq 0, mem, stub_op_p rq 2, stub_op_p rq 3] \<and>
          req d = SKEL_REQ_PUTRES \<and> stub_op_result d = res \<and>
          stub_op_p_sz d = (stub_op_p_sz rq)(1 := res) \<and> stub_op_p d = (stub_op_p rq)(1 := mem) \<and>
          returned (l_recv K E svc p rq tr) = (r \<noteq> SMC_SVC_BUSY K)"
  using assms
  by (auto simp: l_recv_def prim_defs Let_def events_since_def)

theorem recv_success_witness:
  "chHeapAlloc (E0 3 0x3000 0 0) [] (stub_op_p (rq0 3) 2) = 0x3000 \<and> (0x3000 :: uint32) \<noteq> 0 \<and>
   events_since [] (l_recv K0 (E0 3 0x3000 0 0) 7 0x100 (rq0 3) []) =
     [HeapAlloc 12 0x3000, NetCall P_recv [10, 0x3000, 12, 13] 3, MtxLock,
      InvokeCall 7 (PA_req 0x100
        ((rq0 3)\<lparr>req := SKEL_REQ_PUTRES, stub_op_result := 3,
                  stub_op_p_sz := (stub_op_p_sz (rq0 3))(1 := 3),
                  stub_op_p := (stub_op_p (rq0 3))(1 := 0x3000)\<rparr>)),
      InvokeRet 0, MtxUnlock, FifoReturn 0x100, HeapFree 0x3000]"
proof -
  have a: "chHeapAlloc (E0 3 0x3000 0 0) [] (stub_op_p (rq0 3) 2) = 0x3000"
    by (simp add: inst_defs)
  have b: "(0x3000 :: uint32) \<noteq> 0" by simp
  from recv_success [OF a b, where K = K0 and svc = 7 and p = "0x100"] obtain res r d
    where "events_since [] (l_recv K0 (E0 3 0x3000 0 0) 7 0x100 (rq0 3) []) =
            [HeapAlloc (stub_op_p (rq0 3) 2) 0x3000,
             NetCall P_recv [stub_op_p (rq0 3) 0, 0x3000, stub_op_p (rq0 3) 2, stub_op_p (rq0 3) 3] res,
             MtxLock, InvokeCall 7 (PA_req 0x100 d), InvokeRet r]
            @ (if r = SMC_SVC_BUSY K0 then [Halt] else [MtxUnlock, FifoReturn 0x100, HeapFree 0x3000])"
    by blast
  moreover have "events_since [] (l_recv K0 (E0 3 0x3000 0 0) 7 0x100 (rq0 3) []) =
     [HeapAlloc 12 0x3000, NetCall P_recv [10, 0x3000, 12, 13] 3, MtxLock,
      InvokeCall 7 (PA_req 0x100
        ((rq0 3)\<lparr>req := SKEL_REQ_PUTRES, stub_op_result := 3,
                  stub_op_p_sz := (stub_op_p_sz (rq0 3))(1 := 3),
                  stub_op_p := (stub_op_p (rq0 3))(1 := 0x3000)\<rparr>)),
      InvokeRet 0, MtxUnlock, FifoReturn 0x100, HeapFree 0x3000]"
    by (simp add: l_recv_def prim_defs inst_defs Let_def events_since_def)
  ultimately show ?thesis using a b by simp
qed

subsection \<open>What the handlers write into the descriptor before the copy-in\<close>

text \<open>
  C8. \<open>l_connect\<close> and \<open>l_bind\<close> make one copy-in invocation; its descriptor has the
  address of the local \<open>struct sockaddr\<close> in slot 1 and, in every size field, the value the
  descriptor came with, whatever it is. The primitive, when the copy-in returns, is called
  with the socket of slot 0 and the length of slot 2 as they were before the copy-in,
  whatever the service has written into the descriptor meanwhile.
\<close>

theorem connect_bind_sockaddr_size_untouched:
  "(\<exists>d. snapshots SKEL_REQ_CPYPRMS (events_since tr (l_connect K E svc p rq tr)) = [(p, d)] \<and>
        stub_op_p d = (stub_op_p rq)(1 := addr_of E tr connect_sockaddr) \<and>
        stub_op_p_sz d = stub_op_p_sz rq) \<and>
   local_type connect_sockaddr = C_struct_sockaddr \<and>
   map (\<lambda>(f, args, r). (f, args)) (net_calls (events_since tr (l_connect K E svc p rq tr))) =
     (if snapshots SKEL_REQ_PUTRES (events_since tr (l_connect K E svc p rq tr)) = [] then []
      else [(P_connect, [stub_op_p rq 0, addr_of E tr connect_sockaddr, stub_op_p rq 2])]) \<and>
   (\<exists>d. snapshots SKEL_REQ_CPYPRMS (events_since tr (l_bind K E svc p rq tr)) = [(p, d)] \<and>
        stub_op_p d = (stub_op_p rq)(1 := addr_of E tr bind_sockaddr) \<and>
        stub_op_p_sz d = stub_op_p_sz rq) \<and>
   local_type bind_sockaddr = C_struct_sockaddr \<and>
   map (\<lambda>(f, args, r). (f, args)) (net_calls (events_since tr (l_bind K E svc p rq tr))) =
     (if snapshots SKEL_REQ_PUTRES (events_since tr (l_bind K E svc p rq tr)) = [] then []
      else [(P_bind, [stub_op_p rq 0, addr_of E tr bind_sockaddr, stub_op_p rq 2])])"
  by (auto simp: l_connect_def l_bind_def prim_defs Let_def events_since_def)

text \<open>
  An instance: the size field 1 comes with 64, more than a \<open>struct sockaddr\<close> of 16 bytes,
  and goes as it is into the copy-in; the service overwrites slot 2 during the copy-in, and
  \<open>connect\<close> still gets the length 12 read before.
\<close>

lemma connect_example:
  "sizeof K0 C_struct_sockaddr = 16 \<and>
   events_since []
     (l_connect K0 ((E0 1 0 0 0)\<lparr>invoke_write := \<lambda>tr h p rq. rq\<lparr>stub_op_p := \<lambda>i. 0\<rparr>\<rparr>) 7 0x100
        (rq0 1) []) =
     [MtxLock,
      InvokeCall 7 (PA_req 0x100
        ((rq0 1)\<lparr>req := SKEL_REQ_CPYPRMS, stub_op_p := (stub_op_p (rq0 1))(1 := 0x2000)\<rparr>)),
      InvokeRet 0, MtxUnlock, NetCall P_connect [10, 0x2000, 12] 3, MtxLock,
      InvokeCall 7 (PA_req 0x100
        ((rq0 1)\<lparr>req := SKEL_REQ_PUTRES, stub_op_result := 3, stub_op_p := \<lambda>i. 0\<rparr>)),
      InvokeRet 0, MtxUnlock, FifoReturn 0x100] \<and>
   stub_op_p_sz ((rq0 1)\<lparr>req := SKEL_REQ_CPYPRMS\<rparr>) 1 = 64"
  by (simp add: l_connect_def prim_defs inst_defs Let_def events_since_def sizeof_def)

text \<open>
  C10. \<open>l_getaddrinfo\<close> makes one copy-in invocation; its descriptor has in slots 0 and 1
  the addresses of the local variables \<open>nodename\<close> and \<open>servname\<close>, each a \<open>char\<close> of one
  byte, in slot 2 the address of the local \<open>struct addrinfo\<close>, in slot 3 the address of the
  local pointer; size field 3 is the size of that pointer, and the size fields 0 to 2 (and
  4) are the values the descriptor came with.
\<close>

theorem getaddrinfo_marshaling:
  "\<exists>d. snapshots SKEL_REQ_CPYPRMS (events_since tr (l_getaddrinfo K E svc p rq tr)) = [(p, d)] \<and>
       stub_op_p d 0 = addr_of E tr getaddrinfo_nodename \<and>
       sizeof K (local_type getaddrinfo_nodename) = 1 \<and>
       stub_op_p d 1 = addr_of E tr getaddrinfo_servname \<and>
       sizeof K (local_type getaddrinfo_servname) = 1 \<and>
       stub_op_p d 2 = addr_of E tr getaddrinfo_hints \<and>
       local_type getaddrinfo_hints = C_struct_addrinfo \<and>
       stub_op_p d 3 = addr_of E tr getaddrinfo_res \<and>
       stub_op_p d 4 = stub_op_p rq 4 \<and>
       stub_op_p_sz d = (stub_op_p_sz rq)(3 := sizeof K C_ptr_struct_addrinfo) \<and>
       stub_op_p_sz d 0 = stub_op_p_sz rq 0 \<and> stub_op_p_sz d 1 = stub_op_p_sz rq 1 \<and>
       stub_op_p_sz d 2 = stub_op_p_sz rq 2"
  by (auto simp: l_getaddrinfo_def prim_defs Let_def events_since_def sizeof_def)

subsection \<open>The moment of the free\<close>

text \<open>
  The events of \<open>l_send\<close>, of \<open>l_write\<close>, and of \<open>l_recv\<close> and \<open>l_read\<close>, when the
  allocation succeeds.
\<close>

lemma send_events:
  assumes "chHeapAlloc E tr (stub_op_p rq 2) = dataptr" and "dataptr \<noteq> 0"
  shows
   "(let d1 = rq\<lparr>stub_op_p := (stub_op_p rq)(1 := dataptr), req := SKEL_REQ_CPYPRMS\<rparr>;
         tr1 = tr @ [HeapAlloc (stub_op_p rq 2) dataptr, MtxLock, InvokeCall svc (PA_req p d1)];
         r1 = invoke_status E tr1 svc (PA_req p d1);
         left = invoke_write E tr1 svc p d1;
         evs = events_since tr (l_send K E svc p rq tr)
     in snapshots SKEL_REQ_CPYPRMS evs = [(p, d1)] \<and>
        (if r1 = SMC_SVC_BUSY K
         then evs = [HeapAlloc (stub_op_p rq 2) dataptr, MtxLock, InvokeCall svc (PA_req p d1),
                     InvokeRet r1, Halt]
         else (\<exists>res d2 r2.
                 evs = [HeapAlloc (stub_op_p rq 2) dataptr, MtxLock,
                        InvokeCall svc (PA_req p d1), InvokeRet r1, MtxUnlock,
                        NetCall P_send [stub_op_p left 0, dataptr, stub_op_p rq 2, stub_op_p left 3]
                          res,
                        HeapFree dataptr, MtxLock,
                        InvokeCall svc (PA_req p d2), InvokeRet r2]
                       @ (if r2 = SMC_SVC_BUSY K then [Halt] else [MtxUnlock, FifoReturn p]) \<and>
                 req d2 = SKEL_REQ_PUTRES \<and> stub_op_result d2 = res \<and>
                 stub_op_p d2 = stub_op_p left) \<and>
              frees evs = [dataptr] \<and>
              stale_slot1 [] evs = (stub_op_p left 1 = dataptr)))"
  using assms
  by (simp add: l_send_def prim_defs Let_def events_since_def)

lemma write_events:
  assumes "chHeapAlloc E tr (stub_op_p rq 2) = dataptr" and "dataptr \<noteq> 0"
  shows
   "(let d1 = rq\<lparr>stub_op_p := (stub_op_p rq)(1 := dataptr), req := SKEL_REQ_CPYPRMS\<rparr>;
         tr1 = tr @ [HeapAlloc (stub_op_p rq 2) dataptr, MtxLock, InvokeCall svc (PA_req p d1)];
         r1 = invoke_status E tr1 svc (PA_req p d1);
         left = invoke_write E tr1 svc p d1;
         evs = events_since tr (l_write K E svc p rq tr)
     in snapshots SKEL_REQ_CPYPRMS evs = [(p, d1)] \<and>
        (if r1 = SMC_SVC_BUSY K
         then evs = [HeapAlloc (stub_op_p rq 2) dataptr, MtxLock, InvokeCall svc (PA_req p d1),
                     InvokeRet r1, Halt]
         else (\<exists>res d2 r2.
                 evs = [HeapAlloc (stub_op_p rq 2) dataptr, MtxLock,
                        InvokeCall svc (PA_req p d1), InvokeRet r1, MtxUnlock,
                        NetCall P_write [stub_op_p left 0, dataptr, stub_op_p rq 2] res,
                        HeapFree dataptr, MtxLock,
                        InvokeCall svc (PA_req p d2), InvokeRet r2]
                       @ (if r2 = SMC_SVC_BUSY K then [Halt] else [MtxUnlock, FifoReturn p]) \<and>
                 req d2 = SKEL_REQ_PUTRES \<and> stub_op_result d2 = res \<and>
                 stub_op_p d2 = stub_op_p left) \<and>
              frees evs = [dataptr] \<and>
              stale_slot1 [] evs = (stub_op_p left 1 = dataptr)))"
  using assms
  by (simp add: l_write_def prim_defs Let_def events_since_def)

lemma recv_read_free_last:
  assumes "chHeapAlloc E tr (stub_op_p rq 2) = dataptr" and "dataptr \<noteq> 0"
  shows
   "\<not> stale_slot1 [] (events_since tr (l_recv K E svc p rq tr)) \<and>
    \<not> stale_slot1 [] (events_since tr (l_read K E svc p rq tr)) \<and>
    (if returned (l_recv K E svc p rq tr)
     then last (events_since tr (l_recv K E svc p rq tr)) = HeapFree dataptr
     else frees (events_since tr (l_recv K E svc p rq tr)) = []) \<and>
    (if returned (l_read K E svc p rq tr)
     then last (events_since tr (l_read K E svc p rq tr)) = HeapFree dataptr
     else frees (events_since tr (l_read K E svc p rq tr)) = [])"
  using assms
  by (auto simp: l_recv_def l_read_def prim_defs Let_def events_since_def split: if_splits)

text \<open>
  C9 (as amended). In \<open>l_send\<close> and \<open>l_write\<close>, when the allocation succeeds: the copy-in
  descriptor has the address of the block in slot 1; when the copy-in answers
  \<open>SMC_SVC_BUSY\<close> the system halts there, with no free and no copy-out; otherwise the
  primitive is called, the block is freed, and only then the one \<open>PUTRES\<close> invocation is
  called. The handler does not write slot 1 in between: the parameter slots of the
  \<open>PUTRES\<close> descriptor are those the copy-in invocation left, so slot 1 is the address of
  the freed block exactly when the service left it as the handler wrote it. \<open>l_recv\<close> and
  \<open>l_read\<close> never call \<open>PUTRES\<close> with a freed address in slot 1: when they return, the
  free is their last event, and they free nothing otherwise.
\<close>

theorem send_write_free_before_copy_out:
  assumes "chHeapAlloc E tr (stub_op_p rq 2) = dataptr" and "dataptr \<noteq> 0"
  shows
   "(let d1 = rq\<lparr>stub_op_p := (stub_op_p rq)(1 := dataptr), req := SKEL_REQ_CPYPRMS\<rparr>;
         tr1 = tr @ [HeapAlloc (stub_op_p rq 2) dataptr, MtxLock, InvokeCall svc (PA_req p d1)];
         r1 = invoke_status E tr1 svc (PA_req p d1);
         left = invoke_write E tr1 svc p d1;
         evs = events_since tr (l_send K E svc p rq tr)
     in snapshots SKEL_REQ_CPYPRMS evs = [(p, d1)] \<and>
        (if r1 = SMC_SVC_BUSY K
         then evs = [HeapAlloc (stub_op_p rq 2) dataptr, MtxLock, InvokeCall svc (PA_req p d1),
                     InvokeRet r1, Halt]
         else (\<exists>res d2 r2.
                 evs = [HeapAlloc (stub_op_p rq 2) dataptr, MtxLock,
                        InvokeCall svc (PA_req p d1), InvokeRet r1, MtxUnlock,
                        NetCall P_send [stub_op_p left 0, dataptr, stub_op_p rq 2, stub_op_p left 3]
                          res,
                        HeapFree dataptr, MtxLock,
                        InvokeCall svc (PA_req p d2), InvokeRet r2]
                       @ (if r2 = SMC_SVC_BUSY K then [Halt] else [MtxUnlock, FifoReturn p]) \<and>
                 req d2 = SKEL_REQ_PUTRES \<and> stub_op_result d2 = res \<and>
                 stub_op_p d2 = stub_op_p left) \<and>
              frees evs = [dataptr] \<and>
              stale_slot1 [] evs = (stub_op_p left 1 = dataptr))) \<and>
    (let d1 = rq\<lparr>stub_op_p := (stub_op_p rq)(1 := dataptr), req := SKEL_REQ_CPYPRMS\<rparr>;
         tr1 = tr @ [HeapAlloc (stub_op_p rq 2) dataptr, MtxLock, InvokeCall svc (PA_req p d1)];
         r1 = invoke_status E tr1 svc (PA_req p d1);
         left = invoke_write E tr1 svc p d1;
         evs = events_since tr (l_write K E svc p rq tr)
     in snapshots SKEL_REQ_CPYPRMS evs = [(p, d1)] \<and>
        (if r1 = SMC_SVC_BUSY K
         then evs = [HeapAlloc (stub_op_p rq 2) dataptr, MtxLock, InvokeCall svc (PA_req p d1),
                     InvokeRet r1, Halt]
         else (\<exists>res d2 r2.
                 evs = [HeapAlloc (stub_op_p rq 2) dataptr, MtxLock,
                        InvokeCall svc (PA_req p d1), InvokeRet r1, MtxUnlock,
                        NetCall P_write [stub_op_p left 0, dataptr, stub_op_p rq 2] res,
                        HeapFree dataptr, MtxLock,
                        InvokeCall svc (PA_req p d2), InvokeRet r2]
                       @ (if r2 = SMC_SVC_BUSY K then [Halt] else [MtxUnlock, FifoReturn p]) \<and>
                 req d2 = SKEL_REQ_PUTRES \<and> stub_op_result d2 = res \<and>
                 stub_op_p d2 = stub_op_p left) \<and>
              frees evs = [dataptr] \<and>
              stale_slot1 [] evs = (stub_op_p left 1 = dataptr))) \<and>
    (\<not> stale_slot1 [] (events_since tr (l_recv K E svc p rq tr)) \<and>
     \<not> stale_slot1 [] (events_since tr (l_read K E svc p rq tr)) \<and>
     (if returned (l_recv K E svc p rq tr)
      then last (events_since tr (l_recv K E svc p rq tr)) = HeapFree dataptr
      else frees (events_since tr (l_recv K E svc p rq tr)) = []) \<and>
     (if returned (l_read K E svc p rq tr)
      then last (events_since tr (l_read K E svc p rq tr)) = HeapFree dataptr
      else frees (events_since tr (l_read K E svc p rq tr)) = []))"
  by (rule conjI [OF send_events [OF assms]
        conjI [OF write_events [OF assms] recv_read_free_last [OF assms]]])

theorem send_write_free_before_copy_out_witness:
  "chHeapAlloc (E0 8 0x3000 0 0) [] (stub_op_p (rq0 8) 2) = 0x3000 \<and> (0x3000 :: uint32) \<noteq> 0 \<and>
   events_since [] (l_write K0 (E0 8 0x3000 0 0) 7 0x100 (rq0 8) []) =
     [HeapAlloc 12 0x3000, MtxLock,
      InvokeCall 7 (PA_req 0x100
        ((rq0 8)\<lparr>req := SKEL_REQ_CPYPRMS, stub_op_p := (stub_op_p (rq0 8))(1 := 0x3000)\<rparr>)),
      InvokeRet 0, MtxUnlock, NetCall P_write [10, 0x3000, 12] 3, HeapFree 0x3000, MtxLock,
      InvokeCall 7 (PA_req 0x100
        ((rq0 8)\<lparr>req := SKEL_REQ_PUTRES, stub_op_result := 3,
                  stub_op_p := (stub_op_p (rq0 8))(1 := 0x3000)\<rparr>)),
      InvokeRet 0, MtxUnlock, FifoReturn 0x100] \<and>
   stale_slot1 [] (events_since [] (l_write K0 (E0 8 0x3000 0 0) 7 0x100 (rq0 8) [])) \<and>
   \<not> stale_slot1 [] (events_since [] (l_read K0 (E0 8 0x3000 0 0) 7 0x100 (rq0 8) []))"
proof -
  have a: "chHeapAlloc (E0 8 0x3000 0 0) [] (stub_op_p (rq0 8) 2) = 0x3000"
    by (simp add: inst_defs)
  have b: "(0x3000 :: uint32) \<noteq> 0" by simp
  have e: "events_since [] (l_write K0 (E0 8 0x3000 0 0) 7 0x100 (rq0 8) []) =
     [HeapAlloc 12 0x3000, MtxLock,
      InvokeCall 7 (PA_req 0x100
        ((rq0 8)\<lparr>req := SKEL_REQ_CPYPRMS, stub_op_p := (stub_op_p (rq0 8))(1 := 0x3000)\<rparr>)),
      InvokeRet 0, MtxUnlock, NetCall P_write [10, 0x3000, 12] 3, HeapFree 0x3000, MtxLock,
      InvokeCall 7 (PA_req 0x100
        ((rq0 8)\<lparr>req := SKEL_REQ_PUTRES, stub_op_result := 3,
                  stub_op_p := (stub_op_p (rq0 8))(1 := 0x3000)\<rparr>)),
      InvokeRet 0, MtxUnlock, FifoReturn 0x100]"
    by (simp add: l_write_def prim_defs inst_defs Let_def events_since_def)
  have s: "stale_slot1 [] (events_since [] (l_write K0 (E0 8 0x3000 0 0) 7 0x100 (rq0 8) []))"
    by (simp add: e)
  from send_write_free_before_copy_out [OF a b, where K = K0 and svc = 7 and p = "0x100"]
  have "\<not> stale_slot1 [] (events_since [] (l_read K0 (E0 8 0x3000 0 0) 7 0x100 (rq0 8) []))"
    by (simp add: Let_def)
  with a b e s show ?thesis by simp
qed

text \<open>
  The claim C9 as stated fails in two environments. Where the service overwrites slot 1
  during the copy-in (here with 0), the block is freed before the \<open>PUTRES\<close> invocation,
  but slot 1 of its descriptor is not the address of the freed block. Where the copy-in
  answers \<open>SMC_SVC_BUSY\<close>, the allocation has succeeded and the block is never freed.
\<close>

theorem slot1_overwritten_or_no_free:
  "chHeapAlloc (E0 4 0x3000 0 0) [] (stub_op_p (rq0 4) 2) = 0x3000 \<and>
   events_since []
     (l_send K0 ((E0 4 0x3000 0 0)\<lparr>invoke_write := \<lambda>tr h p rq. rq\<lparr>stub_op_p := \<lambda>i. 0\<rparr>\<rparr>) 7 0x100
        (rq0 4) []) =
     [HeapAlloc 12 0x3000, MtxLock,
      InvokeCall 7 (PA_req 0x100
        ((rq0 4)\<lparr>req := SKEL_REQ_CPYPRMS, stub_op_p := (stub_op_p (rq0 4))(1 := 0x3000)\<rparr>)),
      InvokeRet 0, MtxUnlock, NetCall P_send [0, 0x3000, 12, 0] 3, HeapFree 0x3000, MtxLock,
      InvokeCall 7 (PA_req 0x100
        ((rq0 4)\<lparr>req := SKEL_REQ_PUTRES, stub_op_result := 3, stub_op_p := \<lambda>i. 0\<rparr>)),
      InvokeRet 0, MtxUnlock, FifoReturn 0x100] \<and>
   \<not> stale_slot1 [] (events_since []
     (l_send K0 ((E0 4 0x3000 0 0)\<lparr>invoke_write := \<lambda>tr h p rq. rq\<lparr>stub_op_p := \<lambda>i. 0\<rparr>\<rparr>) 7 0x100
        (rq0 4) [])) \<and>
   frees (events_since []
     (l_send K0 ((E0 4 0x3000 0 0)\<lparr>invoke_status := \<lambda>tr h pa. SMC_SVC_BUSY K0\<rparr>) 7 0x100
        (rq0 4) [])) = []"
  by (simp add: l_send_def prim_defs inst_defs Let_def events_since_def)

subsection \<open>The discipline of each thread\<close>

lemma run_monitor_prefix:
  assumes "prefix evs full" and "run_monitor step s full \<noteq> None"
  shows "run_monitor step s evs \<noteq> None"
proof -
  from assms(1) obtain rest where "full = evs @ rest" by (auto simp: prefix_def)
  with assms(2) show ?thesis
    by (auto simp: run_monitor_append split: option.splits)
qed

text \<open>
  A handler runs in a worker that has received its descriptor. From a trace that leaves
  the lock free, it leaves the lock free again when it returns; when the system halts, the
  lock is held and the refused invocation has returned.
\<close>

lemma handler_thread:
  assumes "h \<in> set handlers" and "thread_run Worker tr = Some (Free, False, True)"
  shows "thread_run Worker (trace_of (h K E svc p rq tr)) =
           Some (if halted (h K E svc p rq tr) then Invoked else Free, False, True)"
  using assms unfolding handlers_def thread_run_def
  by (auto simp: handler_defs prim_defs Let_def run_monitor_append split: if_splits)

lemma turn_thread:
  assumes "thread_run Worker tr = Some (Free, False, ho)"
  shows "thread_run Worker (trace_of (TsSockSkelDaemon_turn K E svc tr)) =
           Some (if halted (TsSockSkelDaemon_turn K E svc tr) then Invoked else Free, False, True)"
proof -
  obtain p rq where pr: "fifo_receive E tr = (p, rq)" by (cases "fifo_receive E tr")
  have fr: "thread_run Worker (tr @ [FifoReceive p]) = Some (Free, False, True)"
    using assms by (simp add: thread_run_def run_monitor_append)
  have H: "\<And>h. h \<in> set handlers \<Longrightarrow>
      thread_run Worker (trace_of (h K E svc p rq (tr @ [FifoReceive p]))) =
        Some (if halted (h K E svc p rq (tr @ [FifoReceive p])) then Invoked else Free,
              False, True)"
    using handler_thread [OF _ fr] by blast
  show ?thesis
    using H fr by (simp add: TsSockSkelDaemon_turn_def pr Let_def handlers_def)
qed

lemma worker_thread:
  "thread_run Worker tr = Some (Free, False, ho) \<Longrightarrow>
   \<exists>ho'. thread_run Worker (trace_of (TsSockSkelDaemon K E svc n tr)) =
     Some (if halted (TsSockSkelDaemon K E svc n tr) then Invoked else Free, False, ho')"
proof (induction n arbitrary: tr ho)
  case 0
  then show ?case by simp
next
  case (Suc n)
  note t = turn_thread [OF Suc.prems, of K E svc]
  show ?case
  proof (cases "TsSockSkelDaemon_turn K E svc tr")
    case (Return rq tr1)
    with t have "thread_run Worker tr1 = Some (Free, False, True)" by simp
    from Suc.IH [OF this] Return show ?thesis by simp
  next
    case (Halted tr1)
    with t show ?thesis by auto
  next
    case (OutOfFuel tr1)
    with t show ?thesis by auto
  qed
qed

lemma drain_thread:
  "thread_run Notifier tr = Some (Free, False, ho) \<Longrightarrow>
   \<exists>ho'. thread_run Notifier (trace_of (drain_ops K E svc n tr)) =
     Some (if halted (drain_ops K E svc n tr) then Invoked else Free, False, ho')"
proof (induction n arbitrary: tr ho)
  case 0
  then show ?case by simp
next
  case (Suc n)
  obtain p rq where pr: "fifo_take E tr = (p, rq)" by (cases "fifo_take E tr")
  let ?tr1 = "tr @ [FifoTake p, MtxLock, InvokeCall svc (PA_req p (rq\<lparr>req := SKEL_REQ_GETOP\<rparr>))]"
  let ?r = "invoke_status E ?tr1 svc (PA_req p (rq\<lparr>req := SKEL_REQ_GETOP\<rparr>))"
  let ?next = "?tr1 @ [InvokeRet ?r, MtxUnlock,
     FifoSend p (invoke_write E ?tr1 svc p (rq\<lparr>req := SKEL_REQ_GETOP\<rparr>))]"
  show ?case
  proof (cases "?r = SMC_SVC_BUSY K")
    case True
    with Suc.prems show ?thesis
      by (simp add: pr Let_def thread_run_def run_monitor_append)
  next
    case notbusy: False
    show ?thesis
    proof (cases "?r = SMC_SVC_NHND K")
      case True
      with notbusy Suc.prems show ?thesis
        by (simp add: pr Let_def thread_run_def run_monitor_append)
    next
      case False
      have "thread_run Notifier ?next = Some (Free, False, True)"
        using Suc.prems by (simp add: thread_run_def run_monitor_append)
      from Suc.IH [OF this] obtain ho' where
        "thread_run Notifier (trace_of (drain_ops K E svc n ?next)) =
           Some (if halted (drain_ops K E svc n ?next) then Invoked else Free, False, ho')"
        by blast
      with notbusy False show ?thesis
        by (simp add: pr Let_def)
    qed
  qed
qed

lemma wait_thread:
  "thread_run Notifier tr = Some (Free, False, ho) \<Longrightarrow>
   \<exists>ho'. thread_run Notifier (trace_of (wait_and_drain K E svc n tr)) =
     Some (if halted (wait_and_drain K E svc n tr) then Invoked else Free, False, ho')"
proof (induction n arbitrary: tr ho)
  case 0
  then show ?case by simp
next
  case (Suc n)
  have st: "thread_run Notifier (tr @ [EvtWait, EvtGetAndClearFlags]) = Some (Free, False, ho)"
    using Suc.prems by (simp add: thread_run_def run_monitor_append)
  from drain_thread [OF st, of K E svc n] obtain ho1
    where d: "thread_run Notifier (trace_of (drain_ops K E svc n (tr @ [EvtWait, EvtGetAndClearFlags])))
       = Some (if halted (drain_ops K E svc n (tr @ [EvtWait, EvtGetAndClearFlags]))
               then Invoked else Free, False, ho1)"
    by blast
  show ?case
  proof (cases "drain_ops K E svc n (tr @ [EvtWait, EvtGetAndClearFlags])")
    case (Return p tr1)
    with d have "thread_run Notifier tr1 = Some (Free, False, ho1)" by simp
    then have "thread_run Notifier (tr1 @ [FifoReturn p]) = Some (Free, False, ho1)"
      by (simp add: thread_run_def run_monitor_append)
    from Suc.IH [OF this] Return show ?thesis by simp
  next
    case (Halted tr1)
    with d show ?thesis by auto
  next
    case (OutOfFuel tr1)
    with d show ?thesis by auto
  qed
qed

text \<open>
  The start of the notification thread: its two invocations are made outside of the lock,
  and nothing is sent to the workers.
\<close>

lemma start_thread:
  "thread_run Notifier tr = Some (Free, False, False) \<Longrightarrow>
   \<exists>svc tr1. TsSkelsDaemon_start K E tr = Return svc tr1 \<and>
      thread_run Notifier tr1 = Some (Free, False, False)"
  by (simp add: TsSkelsDaemon_start_def Let_def thread_run_def run_monitor_append
        split: prod.splits)

lemma worker_trace_thread: "worker_trace K evs \<Longrightarrow> thread_run Worker evs \<noteq> None"
proof -
  assume "worker_trace K evs"
  then obtain E svc n where p: "prefix evs (trace_of (TsSockSkelDaemon K E svc n []))"
    by (auto simp: worker_trace_def)
  have "thread_run Worker [] = Some (Free, False, False)" by (simp add: thread_run_def)
  from worker_thread [OF this, of K E svc n]
  have "thread_run Worker (trace_of (TsSockSkelDaemon K E svc n [])) \<noteq> None" by auto
  with p show ?thesis unfolding thread_run_def by (rule run_monitor_prefix)
qed

lemma notifier_trace_thread: "notifier_trace K evs \<Longrightarrow> thread_run Notifier evs \<noteq> None"
proof -
  assume "notifier_trace K evs"
  then obtain E n where p: "prefix evs (trace_of (TsSkelsDaemon K E n []))"
    by (auto simp: notifier_trace_def)
  have "thread_run Notifier [] = Some (Free, False, False)" by (simp add: thread_run_def)
  from start_thread [OF this, of K E] obtain svc tr1
    where s: "TsSkelsDaemon_start K E [] = Return svc tr1"
      "thread_run Notifier tr1 = Some (Free, False, False)"
    by blast
  from wait_thread [OF s(2), of K E svc n] s(1)
  have "thread_run Notifier (trace_of (TsSkelsDaemon K E n [])) \<noteq> None"
    by (auto simp: TsSkelsDaemon_def)
  with p show ?thesis unfolding thread_run_def by (rule run_monitor_prefix)
qed

text \<open>What the state of the discipline says about the events read so far.\<close>

lemma thread_run_invariant:
  assumes "thread_run ro evs = Some s"
    and "P [] (Free, False, False)"
    and "\<And>evs s0 e s. thread_run ro evs = Some s0 \<Longrightarrow> P evs s0 \<Longrightarrow>
           thread_step ro s0 e = Some s \<Longrightarrow> P (evs @ [e]) s"
  shows "P evs s"
  using assms(1)
proof (induction evs arbitrary: s rule: rev_induct)
  case Nil
  then show ?case using assms(2) by (simp add: thread_run_def)
next
  case (snoc e evs)
  from snoc.prems obtain s0 where prev: "thread_run ro evs = Some s0"
    and step: "thread_step ro s0 e = Some s"
    by (auto simp: thread_run_def run_monitor_snoc split: option.splits)
  from assms(3) [OF prev snoc.IH [OF prev] step] show ?case .
qed

lemma open_step:
  assumes "thread_step ro (lk0, opn0, ho0) e = Some (lk, opn, ho)"
    and "opn0 \<longrightarrow> lk0 = Free \<and> \<not> ho0 \<and> ro = Notifier"
  shows "opn \<longrightarrow> lk = Free \<and> \<not> ho \<and> ro = Notifier"
  using assms by (cases e) (auto split: if_splits)

lemma open_outside_lock:
  assumes "thread_run ro evs = Some (lk, opn, ho)"
  shows "opn \<longrightarrow> lk = Free \<and> \<not> ho \<and> ro = Notifier"
proof -
  have "case (lk, opn, ho) of (lk, opn, ho) \<Rightarrow> opn \<longrightarrow> lk = Free \<and> \<not> ho \<and> ro = Notifier"
  proof (rule thread_run_invariant [OF assms])
    show "case (Free, False, False) of
            (lk, opn, ho) \<Rightarrow> opn \<longrightarrow> lk = Free \<and> \<not> ho \<and> ro = Notifier"
      by simp
  next
    fix evs s0 e s
    assume IH: "case s0 of (lk, opn, ho) \<Rightarrow> opn \<longrightarrow> lk = Free \<and> \<not> ho \<and> ro = Notifier"
      and step: "thread_step ro s0 e = Some s"
    obtain lk0 opn0 ho0 where s0: "s0 = (lk0, opn0, ho0)" by (cases s0) auto
    obtain lk1 opn1 ho1 where s1: "s = (lk1, opn1, ho1)" by (cases s) auto
    from IH have "opn0 \<longrightarrow> lk0 = Free \<and> \<not> ho0 \<and> ro = Notifier" by (simp add: s0)
    from open_step [OF step [unfolded s0 s1] this]
    show "case s of (lk, opn, ho) \<Rightarrow> opn \<longrightarrow> lk = Free \<and> \<not> ho \<and> ro = Notifier"
      by (simp add: s1)
  qed
  then show ?thesis by simp
qed

lemma lock_of_thread_step:
  assumes "thread_step ro (lk0, opn0, ho0) e = Some (lk, opn, ho)" and "opn0 \<longrightarrow> lk0 = Free"
  shows "lock_step locked_phase lk0 e = Some lk"
  using assms by (cases e) (auto split: if_splits)

lemma lock_of_thread:
  assumes "thread_run ro evs = Some (lk, opn, ho)"
  shows "lock_run locked_phase evs = Some lk"
proof -
  have "lock_run locked_phase evs = Some (fst (lk, opn, ho))"
  proof (rule thread_run_invariant [OF assms])
    show "lock_run locked_phase [] = Some (fst (Free, False, False))"
      by (simp add: lock_run_def)
  next
    fix evs s0 e s
    assume prev: "thread_run ro evs = Some s0"
      and IH: "lock_run locked_phase evs = Some (fst s0)"
      and step: "thread_step ro s0 e = Some s"
    obtain lk0 opn0 ho0 where s0: "s0 = (lk0, opn0, ho0)" by (cases s0) auto
    obtain lk1 opn1 ho1 where s1: "s = (lk1, opn1, ho1)" by (cases s) auto
    from open_outside_lock [OF prev [unfolded s0]] have "opn0 \<longrightarrow> lk0 = Free" by simp
    from lock_of_thread_step [OF step [unfolded s0 s1] this] IH
    show "lock_run locked_phase (evs @ [e]) = Some (fst s)"
      by (simp add: s0 s1 lock_run_def run_monitor_snoc)
  qed
  then show ?thesis by simp
qed

lemma pending_snoc:
  "pending b (evs @ [e]) =
     (case e of InvokeCall h pa \<Rightarrow> True | InvokeRet r \<Rightarrow> False | _ \<Rightarrow> pending b evs)"
  apply (induction evs arbitrary: b)
   apply (simp split: event.splits)
  subgoal for a evs b by (cases a) (simp_all split: event.splits)
  done

lemma pending_step:
  assumes "thread_step ro (lk0, opn0, ho0) e = Some (lk, opn, ho)" and "opn0 \<longrightarrow> lk0 = Free"
    and "b = (lk0 = InFlight \<or> opn0)"
  shows "(case e of InvokeCall h pa \<Rightarrow> True | InvokeRet r \<Rightarrow> False | _ \<Rightarrow> b) =
           (lk = InFlight \<or> opn)"
  using assms by (cases e) (auto split: if_splits)

lemma pending_of_thread:
  assumes "thread_run ro evs = Some (lk, opn, ho)"
  shows "pending False evs = (lk = InFlight \<or> opn)"
proof -
  have "pending False evs = (fst (lk, opn, ho) = InFlight \<or> fst (snd (lk, opn, ho)))"
  proof (rule thread_run_invariant [OF assms])
    show "pending False [] = (fst (Free, False, False) = InFlight \<or> fst (snd (Free, False, False)))"
      by simp
  next
    fix evs s0 e s
    assume prev: "thread_run ro evs = Some s0"
      and IH: "pending False evs = (fst s0 = InFlight \<or> fst (snd s0))"
      and step: "thread_step ro s0 e = Some s"
    obtain lk0 opn0 ho0 where s0: "s0 = (lk0, opn0, ho0)" by (cases s0) auto
    obtain lk1 opn1 ho1 where s1: "s = (lk1, opn1, ho1)" by (cases s) auto
    from open_outside_lock [OF prev [unfolded s0]] have o: "opn0 \<longrightarrow> lk0 = Free" by simp
    from IH have b: "pending False evs = (lk0 = InFlight \<or> opn0)" by (simp add: s0)
    from pending_step [OF step [unfolded s0 s1] o b]
    show "pending False (evs @ [e]) = (fst s = InFlight \<or> fst (snd s))"
      by (simp add: s1 pending_snoc)
  qed
  then show ?thesis by simp
qed

text \<open>A worker sends nothing, and its first event is the reception of a descriptor.\<close>

lemma worker_step_no_send: "thread_step Worker s0 e = Some s \<Longrightarrow> e \<noteq> FifoSend p d"
  by (cases s0; cases e) (auto split: if_splits)

lemma worker_sends_nothing:
  assumes "thread_run Worker evs = Some s"
  shows "FifoSend p d \<notin> set evs"
proof (rule thread_run_invariant [OF assms, where P = "\<lambda>evs s. FifoSend p d \<notin> set evs"])
  show "FifoSend p d \<notin> set []" by simp
next
  fix evs s0 e s
  assume "FifoSend p d \<notin> set evs" and "thread_step Worker s0 e = Some s"
  then show "FifoSend p d \<notin> set (evs @ [e])"
    using worker_step_no_send [of s0 e s p d] by auto
qed

lemma worker_first_step:
  assumes "thread_step Worker (lk0, opn0, ho0) e = Some (lk, opn, ho)"
    and "\<not> ho0 \<longrightarrow> lk0 = Free \<and> \<not> opn0"
  shows "ho \<and> (ho0 \<or> (\<exists>p. e = FifoReceive p))"
  using assms by (cases e) (auto split: if_splits)

lemma worker_received:
  assumes "thread_run Worker evs = Some (lk, opn, ho)"
  shows "if ho then \<exists>p. FifoReceive p \<in> set evs else evs = []"
proof -
  have "if snd (snd (lk, opn, ho)) then \<exists>p. FifoReceive p \<in> set evs else evs = []"
  proof (rule thread_run_invariant [OF assms])
    show "if snd (snd (Free, False, False)) then \<exists>p. FifoReceive p \<in> set [] else [] = []"
      by simp
  next
    fix evs s0 e s
    assume prev: "thread_run Worker evs = Some s0"
      and IH: "if snd (snd s0) then \<exists>p. FifoReceive p \<in> set evs else evs = []"
      and step: "thread_step Worker s0 e = Some s"
    obtain lk0 opn0 ho0 where s0: "s0 = (lk0, opn0, ho0)" by (cases s0) auto
    obtain lk1 opn1 ho1 where s1: "s = (lk1, opn1, ho1)" by (cases s) auto
    have init: "\<not> ho0 \<longrightarrow> lk0 = Free \<and> \<not> opn0"
    proof
      assume "\<not> ho0"
      with IH have "evs = []" by (simp add: s0)
      with prev show "lk0 = Free \<and> \<not> opn0" by (simp add: s0 thread_run_def)
    qed
    from worker_first_step [OF step [unfolded s0 s1] init]
    have h: "ho1" and c: "ho0 \<or> (\<exists>p. e = FifoReceive p)" by simp_all
    from c show "if snd (snd s) then \<exists>p. FifoReceive p \<in> set (evs @ [e]) else evs @ [e] = []"
    proof
      assume ho0
      with IH obtain p where "FifoReceive p \<in> set evs" by (auto simp: s0)
      then have "FifoReceive p \<in> set (evs @ [e])" by simp
      then show ?thesis using h by (auto simp: s1)
    next
      assume "\<exists>p. e = FifoReceive p"
      then obtain p where "e = FifoReceive p" by blast
      then have "FifoReceive p \<in> set (evs @ [e])" by simp
      then show ?thesis using h by (auto simp: s1)
    qed
  qed
  then show ?thesis by simp
qed

text \<open>A thread that has not passed a descriptor through the queue has sent nothing.\<close>

lemma unsent_step:
  assumes "thread_step ro (lk0, opn0, ho0) e = Some (lk, opn, ho)" and "\<not> ho"
  shows "\<not> ho0 \<and> e \<noteq> FifoSend p d"
  using assms by (cases e) (auto split: if_splits)

lemma unsent:
  assumes "thread_run ro evs = Some (lk, opn, ho)" and "\<not> ho"
  shows "FifoSend p d \<notin> set evs"
proof -
  have "\<not> snd (snd (lk, opn, ho)) \<longrightarrow> FifoSend p d \<notin> set evs"
  proof (rule thread_run_invariant [OF assms(1)])
    show "\<not> snd (snd (Free, False, False)) \<longrightarrow> FifoSend p d \<notin> set []" by simp
  next
    fix evs s0 e s
    assume IH: "\<not> snd (snd s0) \<longrightarrow> FifoSend p d \<notin> set evs"
      and step: "thread_step ro s0 e = Some s"
    obtain lk0 opn0 ho0 where s0: "s0 = (lk0, opn0, ho0)" by (cases s0) auto
    obtain lk1 opn1 ho1 where s1: "s = (lk1, opn1, ho1)" by (cases s) auto
    show "\<not> snd (snd s) \<longrightarrow> FifoSend p d \<notin> set (evs @ [e])"
    proof
      assume "\<not> snd (snd s)"
      then have "\<not> ho1" by (simp add: s1)
      from unsent_step [OF step [unfolded s0 s1] this, of p d] IH
      show "FifoSend p d \<notin> set (evs @ [e])" by (auto simp: s0)
    qed
  qed
  with assms(2) show ?thesis by simp
qed

subsection \<open>Mutual exclusion of the invocations\<close>

lemma thread_events_snoc:
  "thread_events t (sched @ [(u, e)]) =
     (if u = t then thread_events t sched @ [e] else thread_events t sched)"
  by (simp add: thread_events_def)

lemma lock_step_holds:
  "lock_step g s e = Some s' \<Longrightarrow> e \<noteq> MtxLock \<Longrightarrow> e \<noteq> MtxUnlock \<Longrightarrow> (s' = Free) = (s = Free)"
  by (cases e) (auto split: if_splits)

lemma mutex_step_other:
  "e \<noteq> MtxLock \<Longrightarrow> e \<noteq> MtxUnlock \<Longrightarrow> mutex_step owner (t, e) = Some owner"
  by (cases e) auto

text \<open>
  In a schedule that respects the mutex, where every thread follows the lock discipline,
  the thread that owns the mutex is the one whose monitor is not \<open>Free\<close>.
\<close>

lemma mutex_invariant:
  assumes "mutex_run sched = Some owner"
    and "\<forall>t. lock_run g (thread_events t sched) \<noteq> None"
  shows "(lock_run g (thread_events t sched) \<noteq> Some Free) = (owner = Some t)"
  using assms
proof (induction sched arbitrary: owner t rule: rev_induct)
  case Nil
  then show ?case by (simp add: mutex_run_def lock_run_def thread_events_def)
next
  case (snoc x sched)
  obtain u e where x: "x = (u, e)" by (cases x)
  from snoc.prems(1) obtain o' where o': "mutex_run sched = Some o'"
    and st: "mutex_step o' (u, e) = Some owner"
    by (auto simp: mutex_run_def run_monitor_snoc x split: option.splits)
  from snoc.prems(2) have u_ok: "lock_run g (thread_events u sched @ [e]) \<noteq> None"
    using spec [OF snoc.prems(2), of u] by (simp add: x thread_events_snoc)
  then obtain s s' where s: "lock_run g (thread_events u sched) = Some s"
    and s': "lock_step g s e = Some s'"
    by (auto simp: lock_run_def run_monitor_snoc split: option.splits)
  have after: "lock_run g (thread_events u (sched @ [x])) = Some s'"
    using s s' by (simp add: x thread_events_snoc lock_run_def run_monitor_snoc)
  have others: "\<And>v. v \<noteq> u \<Longrightarrow> thread_events v (sched @ [x]) = thread_events v sched"
    by (simp add: x thread_events_snoc)
  have pre: "\<forall>v. lock_run g (thread_events v sched) \<noteq> None"
  proof
    fix v show "lock_run g (thread_events v sched) \<noteq> None"
    proof (cases "v = u")
      case True then show ?thesis using s by simp
    next
      case False then show ?thesis using spec [OF snoc.prems(2), of v] others [of v] by simp
    qed
  qed
  note IH = snoc.IH [OF o' pre]
  show ?case
  proof (cases "e = MtxLock")
    case True
    with st have own: "o' = None" "owner = Some u" by (auto split: if_splits)
    from True s' have "s' = Held" by (auto split: if_splits)
    show ?thesis
    proof (cases "t = u")
      case True
      then show ?thesis using after \<open>s' = Held\<close> own by simp
    next
      case False
      then show ?thesis using IH [of t] own others [of t] by auto
    qed
  next
    case notlock: False
    show ?thesis
    proof (cases "e = MtxUnlock")
      case True
      with s' have ss: "s = Invoked" "s' = Free" by (auto split: if_splits)
      from True st have own: "o' = Some u" "owner = None" by (auto split: if_splits)
      show ?thesis
      proof (cases "t = u")
        case True
        then show ?thesis using after ss own by simp
      next
        case False
        then show ?thesis using IH [of t] own others [of t] by auto
      qed
    next
      case False
      from mutex_step_other [OF notlock False] st have own: "owner = o'" by simp
      from lock_step_holds [OF s' notlock False] have fr: "(s' = Free) = (s = Free)" .
      show ?thesis
      proof (cases "t = u")
        case True
        then show ?thesis using after s fr IH [of u] own by simp
      next
        case False
        then show ?thesis using IH [of t] own others [of t] by auto
      qed
    qed
  qed
qed

text \<open>The events of a thread are its events in the schedule.\<close>

lemma in_thread_events: "e \<in> set (thread_events t sched) \<longleftrightarrow> (t, e) \<in> set sched"
  by (force simp: thread_events_def)

text \<open>Where nothing has been sent, the queue is empty and nothing has been received.\<close>

lemma fifo_nothing_sent:
  assumes "fifo_run sched = Some q" and "\<forall>t p d. (t, FifoSend p d) \<notin> set sched"
  shows "q = 0 \<and> (\<forall>t p. (t, FifoReceive p) \<notin> set sched)"
  using assms
proof (induction sched arbitrary: q rule: rev_induct)
  case Nil
  then show ?case by (simp add: fifo_run_def)
next
  case (snoc x sched)
  obtain u e where x: "x = (u, e)" by (cases x)
  from snoc.prems(1) obtain q0 where q0: "fifo_run sched = Some q0"
    and st: "fifo_step q0 (u, e) = Some q"
    by (auto simp: fifo_run_def run_monitor_snoc x split: option.splits)
  from snoc.prems(2) have ns: "\<forall>t p d. (t, FifoSend p d) \<notin> set sched"
    and ne: "\<And>p d. e \<noteq> FifoSend p d"
    by (auto simp: x)
  from snoc.IH [OF q0 ns] have z: "q0 = 0" and nr: "\<forall>t p. (t, FifoReceive p) \<notin> set sched"
    by simp_all
  from st z ne have "q = 0 \<and> (\<forall>p. e \<noteq> FifoReceive p)"
    by (cases e) auto
  with nr show ?case by (auto simp: x)
qed

text \<open>
  C1 (as amended). Take any schedule of the threads that \<open>tsSkelsDaemonInit\<close> creates
  (thread 0 runs \<open>TsSkelsDaemon\<close>, every other thread runs \<open>TsSockSkelDaemon\<close>) that
  respects the mutex and the queue of the fifo. Then each thread follows the lock discipline
  for its \<open>CPYPRMS\<close>, \<open>PUTRES\<close> and \<open>GETOP\<close> invocations (the lock is taken just before
  the call and released just after the return of that one invocation), and a thread inside
  such an invocation owns \<open>tsStubsServiceMtx\<close>. An invocation outside of the lock (the
  discovery, the \<open>READY\<close> handshake) is in flight only in thread 0 and only while no
  worker has done anything yet. So no two threads have an invocation in flight at once.
\<close>

theorem invokes_serialized:
  assumes notifier: "notifier_trace K (thread_events 0 sched)"
    and workers: "\<forall>t. t \<noteq> 0 \<longrightarrow> worker_trace K (thread_events t sched)"
    and mutex: "mutex_run sched = Some owner"
    and fifo: "fifo_run sched = Some queued"
  shows "(\<forall>t. lock_run locked_phase (thread_events t sched) \<noteq> None) \<and>
         (\<forall>t. in_flight locked_phase t sched \<longrightarrow> owner = Some t) \<and>
         (\<forall>t. invoking t sched \<and> \<not> in_flight locked_phase t sched \<longrightarrow>
              t = 0 \<and> (\<forall>u. u \<noteq> 0 \<longrightarrow> thread_events u sched = [])) \<and>
         (\<forall>t u. invoking t sched \<and> invoking u sched \<longrightarrow> t = u)"
proof -
  have run0: "\<exists>lk opn ho. thread_run Notifier (thread_events 0 sched) = Some (lk, opn, ho)"
    using notifier_trace_thread [OF notifier] by auto
  have runw: "\<exists>lk opn ho. thread_run Worker (thread_events t sched) = Some (lk, opn, ho)"
    if "t \<noteq> 0" for t
  proof -
    from workers that have "worker_trace K (thread_events t sched)" by simp
    from worker_trace_thread [OF this] show ?thesis by auto
  qed
  have run: "\<exists>ro lk opn ho. thread_run ro (thread_events t sched) = Some (lk, opn, ho) \<and>
      (ro = Notifier) = (t = 0)" for t
  proof (cases "t = 0")
    case True
    with run0 show ?thesis by blast
  next
    case False
    from runw [OF this] obtain lk opn ho
      where "thread_run Worker (thread_events t sched) = Some (lk, opn, ho)" by blast
    with False show ?thesis by blast
  qed
  have disc: "\<forall>t. lock_run locked_phase (thread_events t sched) \<noteq> None"
  proof
    fix t
    from run [of t] obtain ro lk opn ho
      where "thread_run ro (thread_events t sched) = Some (lk, opn, ho)" by blast
    from lock_of_thread [OF this]
    show "lock_run locked_phase (thread_events t sched) \<noteq> None" by simp
  qed
  have own: "owner = Some t" if "in_flight locked_phase t sched" for t
  proof -
    from that have "lock_run locked_phase (thread_events t sched) \<noteq> Some Free"
      by (simp add: in_flight_def)
    then show ?thesis by (simp only: mutex_invariant [OF mutex disc, of t])
  qed
  have alone: "t = 0 \<and> (\<forall>u. u \<noteq> 0 \<longrightarrow> thread_events u sched = [])"
    if inv: "invoking t sched" and nl: "\<not> in_flight locked_phase t sched" for t
  proof -
    from run [of t] obtain ro lk opn ho
      where st: "thread_run ro (thread_events t sched) = Some (lk, opn, ho)"
        and ro: "(ro = Notifier) = (t = 0)" by blast
    from pending_of_thread [OF st] inv have "lk = InFlight \<or> opn" by (simp add: invoking_def)
    moreover from lock_of_thread [OF st] nl have "lk \<noteq> InFlight" by (simp add: in_flight_def)
    ultimately have opn by simp
    with open_outside_lock [OF st] have nh: "\<not> ho" and "ro = Notifier" by simp_all
    with ro have t0: "t = 0" by simp
    have nosend: "(u, FifoSend p d) \<notin> set sched" for u p d
    proof (cases "u = 0")
      case True
      from unsent [OF st nh, of p d] show ?thesis by (simp add: in_thread_events t0 True)
    next
      case False
      from runw [OF False] obtain lk' opn' ho'
        where "thread_run Worker (thread_events u sched) = Some (lk', opn', ho')" by blast
      from worker_sends_nothing [OF this, of p d] show ?thesis by (simp add: in_thread_events)
    qed
    then have "\<forall>t p d. (t, FifoSend p d) \<notin> set sched" by simp
    from fifo_nothing_sent [OF fifo this]
    have norecv: "\<And>u p. (u, FifoReceive p) \<notin> set sched" by simp
    have "thread_events u sched = []" if "u \<noteq> 0" for u
    proof -
      from runw [OF that] obtain lk' opn' ho'
        where w: "thread_run Worker (thread_events u sched) = Some (lk', opn', ho')" by blast
      show ?thesis
      proof (cases ho')
        case True
        with worker_received [OF w] obtain p where "FifoReceive p \<in> set (thread_events u sched)"
          by auto
        then have "(u, FifoReceive p) \<in> set sched" by (simp add: in_thread_events)
        with norecv show ?thesis by simp
      next
        case False
        with worker_received [OF w] show ?thesis by simp
      qed
    qed
    with t0 show ?thesis by simp
  qed
  have idle: "\<not> invoking u sched \<and> \<not> in_flight locked_phase u sched"
    if "thread_events u sched = []" for u
    using that by (simp add: invoking_def in_flight_def lock_run_def)
  have uniq: "t = u" if t: "invoking t sched" and u: "invoking u sched" for t u
  proof (cases "in_flight locked_phase t sched")
    case True
    show ?thesis
    proof (cases "in_flight locked_phase u sched")
      case u_in: True
      from own [OF True] own [OF u_in] show ?thesis by simp
    next
      case False
      from alone [OF u False] have u0: "u = 0"
        and e: "\<And>v. v \<noteq> 0 \<Longrightarrow> thread_events v sched = []" by simp_all
      show ?thesis
      proof (cases "t = 0")
        case True
        with u0 show ?thesis by simp
      next
        case False
        from idle [OF e [OF False]] True show ?thesis by simp
      qed
    qed
  next
    case False
    from alone [OF t False] have t0: "t = 0"
      and e: "\<And>v. v \<noteq> 0 \<Longrightarrow> thread_events v sched = []" by simp_all
    show ?thesis
    proof (cases "u = 0")
      case True
      with t0 show ?thesis by simp
    next
      case False
      from idle [OF e [OF False]] u show ?thesis by simp
    qed
  qed
  show ?thesis
  proof (intro conjI allI impI)
    fix t show "lock_run locked_phase (thread_events t sched) \<noteq> None" using disc by simp
  next
    fix t assume "in_flight locked_phase t sched" then show "owner = Some t" by (rule own)
  next
    fix t assume "invoking t sched \<and> \<not> in_flight locked_phase t sched"
    then show "t = 0" using alone by blast
  next
    fix t u :: nat
    assume "invoking t sched \<and> \<not> in_flight locked_phase t sched" and "u \<noteq> 0"
    then show "thread_events u sched = []" using alone by blast
  next
    fix t u assume "invoking t sched \<and> invoking u sched"
    then show "t = u" using uniq by blast
  qed
qed

subsection \<open>The status \<open>SMC_SVC_BUSY\<close>\<close>

lemma handler_busy:
  assumes "h \<in> set handlers" and "busy_run K locked_phase tr = Some Idle"
  shows "busy_run K locked_phase (trace_of (h K E svc p rq tr)) =
           Some (if halted (h K E svc p rq tr) then Dead else Idle)"
  using assms unfolding handlers_def busy_run_def
  by (auto simp: handler_defs prim_defs Let_def run_monitor_append split: if_splits)

lemma turn_busy:
  assumes "busy_run K locked_phase tr = Some Idle"
  shows "busy_run K locked_phase (trace_of (TsSockSkelDaemon_turn K E svc tr)) =
           Some (if halted (TsSockSkelDaemon_turn K E svc tr) then Dead else Idle)"
proof -
  obtain p rq where pr: "fifo_receive E tr = (p, rq)" by (cases "fifo_receive E tr")
  have fr: "busy_run K locked_phase (tr @ [FifoReceive p]) = Some Idle"
    using assms by (simp add: busy_run_def run_monitor_append)
  have H: "\<And>h. h \<in> set handlers \<Longrightarrow>
      busy_run K locked_phase (trace_of (h K E svc p rq (tr @ [FifoReceive p]))) =
        Some (if halted (h K E svc p rq (tr @ [FifoReceive p])) then Dead else Idle)"
    using handler_busy [OF _ fr] by blast
  show ?thesis
    using H fr by (simp add: TsSockSkelDaemon_turn_def pr Let_def handlers_def)
qed

lemma worker_busy:
  "busy_run K locked_phase tr = Some Idle \<Longrightarrow>
   busy_run K locked_phase (trace_of (TsSockSkelDaemon K E svc n tr)) =
     Some (if halted (TsSockSkelDaemon K E svc n tr) then Dead else Idle)"
proof (induction n arbitrary: tr)
  case 0
  then show ?case by simp
next
  case (Suc n)
  note t = turn_busy [OF Suc.prems, of E svc]
  show ?case
  proof (cases "TsSockSkelDaemon_turn K E svc tr")
    case (Return rq tr1)
    with t have "busy_run K locked_phase tr1 = Some Idle" by simp
    from Suc.IH [OF this] Return show ?thesis by simp
  next
    case (Halted tr1)
    with t show ?thesis by simp
  next
    case (OutOfFuel tr1)
    with t show ?thesis by simp
  qed
qed

lemma drain_busy:
  "busy_run K locked_phase tr = Some Idle \<Longrightarrow>
   busy_run K locked_phase (trace_of (drain_ops K E svc n tr)) =
     Some (if halted (drain_ops K E svc n tr) then Dead else Idle)"
proof (induction n arbitrary: tr)
  case 0
  then show ?case by simp
next
  case (Suc n)
  obtain p rq where pr: "fifo_take E tr = (p, rq)" by (cases "fifo_take E tr")
  let ?tr1 = "tr @ [FifoTake p, MtxLock, InvokeCall svc (PA_req p (rq\<lparr>req := SKEL_REQ_GETOP\<rparr>))]"
  let ?r = "invoke_status E ?tr1 svc (PA_req p (rq\<lparr>req := SKEL_REQ_GETOP\<rparr>))"
  let ?next = "?tr1 @ [InvokeRet ?r, MtxUnlock,
     FifoSend p (invoke_write E ?tr1 svc p (rq\<lparr>req := SKEL_REQ_GETOP\<rparr>))]"
  show ?case
  proof (cases "?r = SMC_SVC_BUSY K")
    case True
    with Suc.prems show ?thesis
      by (simp add: pr Let_def busy_run_def run_monitor_append)
  next
    case False
    with Suc.prems have "busy_run K locked_phase ?next = Some Idle"
      by (simp add: busy_run_def run_monitor_append)
    from Suc.IH [OF this] Suc.prems False show ?thesis
      by (simp add: pr Let_def busy_run_def run_monitor_append)
  qed
qed

lemma wait_busy:
  "busy_run K locked_phase tr = Some Idle \<Longrightarrow>
   busy_run K locked_phase (trace_of (wait_and_drain K E svc n tr)) =
     Some (if halted (wait_and_drain K E svc n tr) then Dead else Idle)"
proof (induction n arbitrary: tr)
  case 0
  then show ?case by simp
next
  case (Suc n)
  have st: "busy_run K locked_phase (tr @ [EvtWait, EvtGetAndClearFlags]) = Some Idle"
    using Suc.prems by (simp add: busy_run_def run_monitor_append)
  note d = drain_busy [OF st, of E svc n]
  show ?case
  proof (cases "drain_ops K E svc n (tr @ [EvtWait, EvtGetAndClearFlags])")
    case (Return p tr1)
    with d have "busy_run K locked_phase tr1 = Some Idle" by simp
    then have "busy_run K locked_phase (tr1 @ [FifoReturn p]) = Some Idle"
      by (simp add: busy_run_def run_monitor_append)
    from Suc.IH [OF this] Return show ?thesis by simp
  next
    case (Halted tr1)
    with d show ?thesis by simp
  next
    case (OutOfFuel tr1)
    with d show ?thesis by simp
  qed
qed

lemma start_busy:
  "busy_run K locked_phase tr = Some Idle \<Longrightarrow>
   \<exists>svc tr1. TsSkelsDaemon_start K E tr = Return svc tr1 \<and>
      busy_run K locked_phase tr1 = Some Idle"
  by (simp add: TsSkelsDaemon_start_def Let_def busy_run_def run_monitor_append split: prod.splits)

text \<open>
  C6 (as amended). In every run of a worker and of the notification thread, after a
  \<open>CPYPRMS\<close>, \<open>PUTRES\<close> or \<open>GETOP\<close> invocation has returned \<open>SMC_SVC_BUSY\<close> the only
  event is the halt of the failed assertion: no retry, nothing else. The run is halted
  exactly when this has happened.
\<close>

theorem busy_is_fatal_in_running_phases:
  "busy_run K locked_phase (trace_of (TsSockSkelDaemon K E svc n [])) =
     Some (if halted (TsSockSkelDaemon K E svc n []) then Dead else Idle) \<and>
   busy_run K locked_phase (trace_of (TsSkelsDaemon K E n [])) =
     Some (if halted (TsSkelsDaemon K E n []) then Dead else Idle)"
proof
  have i: "busy_run K locked_phase [] = Some Idle" by (simp add: busy_run_def)
  from worker_busy [OF i]
  show "busy_run K locked_phase (trace_of (TsSockSkelDaemon K E svc n [])) =
     Some (if halted (TsSockSkelDaemon K E svc n []) then Dead else Idle)" .
  from start_busy [OF i, of E] obtain svc tr1
    where s: "TsSkelsDaemon_start K E [] = Return svc tr1"
      "busy_run K locked_phase tr1 = Some Idle"
    by blast
  from wait_busy [OF s(2), of E svc n] s(1)
  show "busy_run K locked_phase (trace_of (TsSkelsDaemon K E n [])) =
     Some (if halted (TsSkelsDaemon K E n []) then Dead else Idle)"
    by (simp add: TsSkelsDaemon_def)
qed


text \<open>
  The claim C6 as stated fails at startup: the status of the \<open>READY\<close> handshake is
  dropped, so with \<open>SMC_SVC_BUSY\<close> there the thread goes on (it gives the descriptor back
  and enters its loop).
\<close>

theorem ready_busy_not_fatal:
  "TsSkelsDaemon_start K0 (E0 0 0 (SMC_SVC_BUSY K0) (SMC_SVC_NHND K0)) [] =
     Return 7 [EvtRegister, InvokeCall 2 (PA_name ''TsStubsService''), InvokeRet 7,
               FifoTake 0xFA, InvokeCall 7 (PA_req 0xFA ((rq0 0)\<lparr>req := SKEL_REQ_READY\<rparr>)),
               InvokeRet (SMC_SVC_BUSY K0), FifoReturn 0xFA] \<and>
   \<not> halted (TsSkelsDaemon K0 (E0 0 0 (SMC_SVC_BUSY K0) (SMC_SVC_NHND K0)) 2 []) \<and>
   busy_run K0 every_invoke
     (trace_of (TsSkelsDaemon K0 (E0 0 0 (SMC_SVC_BUSY K0) (SMC_SVC_NHND K0)) 2 [])) = None"
  by (simp add: TsSkelsDaemon_def TsSkelsDaemon_start_def inst_defs Let_def busy_run_def
        every_invoke_def numeral_2_eq_2)

text \<open>
  In every environment the start of the notification thread returns, with two invocations
  and without any event on the lock.
\<close>

lemma start_unlocked:
  "returned (TsSkelsDaemon_start K E tr) \<and>
   MtxLock \<notin> set (events_since tr (TsSkelsDaemon_start K E tr)) \<and>
   length (filter (\<lambda>e. case e of InvokeCall h pa \<Rightarrow> True | _ \<Rightarrow> False)
             (events_since tr (TsSkelsDaemon_start K E tr))) = 2"
  by (simp add: TsSkelsDaemon_start_def Let_def events_since_def split: prod.splits)

text \<open>
  The claim C1 as stated fails at startup: the discovery and the \<open>READY\<close> handshake are
  invoked with the lock free, while the \<open>GETOP\<close> invocation that follows is made under
  the lock.
\<close>

theorem startup_invokes_without_lock:
  "TsSkelsDaemon K0 (E0 0 0 0 (SMC_SVC_NHND K0)) 2 [] =
     OutOfFuel [EvtRegister, InvokeCall 2 (PA_name ''TsStubsService''), InvokeRet 7,
               FifoTake 0xFA, InvokeCall 7 (PA_req 0xFA ((rq0 0)\<lparr>req := SKEL_REQ_READY\<rparr>)),
               InvokeRet 0, FifoReturn 0xFA, EvtWait, EvtGetAndClearFlags,
               FifoTake 0x100, MtxLock, InvokeCall 7 (PA_req 0x100 (rq0 0)),
               InvokeRet (SMC_SVC_NHND K0), MtxUnlock, FifoReturn 0x100,
               EvtWait, EvtGetAndClearFlags] \<and>
   lock_run every_invoke (trace_of (TsSkelsDaemon K0 (E0 0 0 0 (SMC_SVC_NHND K0)) 2 [])) = None \<and>
   lock_run locked_phase (trace_of (TsSkelsDaemon K0 (E0 0 0 0 (SMC_SVC_NHND K0)) 2 [])) = Some Free"
  by (simp add: TsSkelsDaemon_def TsSkelsDaemon_start_def inst_defs Let_def lock_run_def
        every_invoke_def numeral_2_eq_2)

text \<open>
  A schedule in which a worker is inside an invocation while the discovery is open does not
  respect the queue: nothing has been sent when the worker receives.
\<close>

lemma worker_needs_hand_off:
  "fifo_run [(0, EvtRegister), (0, InvokeCall 2 (PA_name ''TsStubsService'')),
             (1, FifoReceive 0x100), (1, NetCall P_close [10] 3), (1, MtxLock)] = None"
  by (simp add: fifo_run_def)

theorem invokes_serialized_witness:
  "notifier_trace K0 (thread_events 0 sched0) \<and> worker_trace K0 (thread_events 1 sched0) \<and>
   mutex_run sched0 = Some (Some 0) \<and> fifo_run sched0 = Some 0 \<and>
   invoking 0 sched0 \<and> in_flight locked_phase 0 sched0 \<and> \<not> invoking 1 sched0"
proof -
  have n: "notifier_trace K0 (thread_events 0 sched0)"
    unfolding notifier_trace_def
    by (rule exI [of _ "E0 0 0 0 0"], rule exI [of _ 3])
       (simp add: TsSkelsDaemon_def TsSkelsDaemon_start_def inst_defs Let_def sched0_def
          thread_events_def numeral_3_eq_3)
  have w: "worker_trace K0 (thread_events 1 sched0)"
    unfolding worker_trace_def
    by (rule exI [of _ "E0 2 0 0 0"], rule exI [of _ 7], rule exI [of _ 1])
       (simp add: TsSockSkelDaemon_turn_def l_close_def prim_defs inst_defs Let_def sched0_def
          thread_events_def)
  have o: "worker_trace K0 (thread_events t sched0)" if "t \<noteq> 0" and "t \<noteq> 1" for t
    using that that [symmetric] by (simp add: worker_trace_def sched0_def thread_events_def)
  have workers: "\<forall>t. t \<noteq> 0 \<longrightarrow> worker_trace K0 (thread_events t sched0)"
  proof (intro allI impI)
    fix t :: nat
    assume "t \<noteq> 0"
    then show "worker_trace K0 (thread_events t sched0)"
      using w o [of t] by (cases "t = 1") simp_all
  qed
  have m: "mutex_run sched0 = Some (Some 0)"
    by (simp add: mutex_run_def sched0_def)
  have q: "fifo_run sched0 = Some 0"
    by (simp add: fifo_run_def sched0_def)
  have i: "invoking 0 sched0"
    by (simp add: invoking_def sched0_def thread_events_def)
  have f: "in_flight locked_phase 0 sched0"
    by (simp add: in_flight_def lock_run_def sched0_def thread_events_def rq0_def)
  have u: "\<forall>t u. invoking t sched0 \<and> invoking u sched0 \<longrightarrow> t = u"
    using invokes_serialized [OF n workers m q] by (elim conjE)
  have g: "\<not> invoking 1 sched0"
  proof
    assume "invoking 1 sched0"
    with i u have "(0::nat) = 1" by (elim allE [of _ 0] allE [of _ 1]) simp
    then show False by simp
  qed
  show ?thesis
    by (intro conjI n w m q i f g)
qed

end
